theory Spec2Isabelle
  imports Complex_Main "HOL-Library.Word" "HOL-Library.Signed_Division" "HOL-Library.Monad_Syntax"
begin

section \<open>Knock Shield example firmware\<close>

text \<open>
  Two sketches are embedded: the single-channel sketch \<^verbatim>\<open>Knock_Shield_Example.ino\<close>
  (v1.1.0, names ending in \<open>_1ch\<close>) and the dual-channel sketch with data logging
  (v1.3.0, names ending in \<open>_2ch\<close>). Every call into the Arduino runtime is recorded as
  an event of a chronological trace; the levels last written to the digital pins are kept
  beside it. What the hardware answers (SPI response bytes, ADC readings, whether the
  SD card can be reached) is an explicit argument of the operation that asks for it.
\<close>

subsection \<open>Board state and events\<close>

type_synonym byte = "8 word"
type_synonym pin = nat

datatype level = LOW | HIGH

datatype pin_mode = INPUT | OUTPUT

datatype bit_order = LSBFIRST | MSBFIRST

datatype spi_mode = SPI_MODE0 | SPI_MODE1 | SPI_MODE2 | SPI_MODE3

datatype clock_div = SPI_CLOCK_DIV4 | SPI_CLOCK_DIV16 | SPI_CLOCK_DIV64 | SPI_CLOCK_DIV128

text \<open>
  Printed text is kept as a list of pieces: a string literal, a byte printed in
  hexadecimal (\<^verbatim>\<open>Serial.print(b, HEX)\<close>) or a float printed with no decimals
  (\<^verbatim>\<open>String(f, 0)\<close>, \<^verbatim>\<open>Serial.print(f, 0)\<close>). The float is stored as the
  rational number it denotes.
\<close>

datatype piece = Str string | Hex byte | Float0 rat

datatype event =
    SerialBegin nat
  | SerialPrint "piece list"
  | SerialPrintln "piece list"
  | SpiBegin
  | SpiSetBitOrder bit_order
  | SpiSetDataMode spi_mode
  | SpiSetClockDivider clock_div
  | SpiTransfer byte byte
  | PinMode pin pin_mode
  | DigitalWrite pin level
  | AnalogRead pin "16 word"
  | AnalogWrite pin byte
  | Delay nat
  | DelayMicroseconds nat
  | SdBegin pin bool
  | SdOpenWrite string
  | FilePrintln "piece list"
  | FileClose

record board =
  pins :: "pin \<Rightarrow> level"
  trace :: "event list"

record logger_board = board +
  logEnabled :: bool

named_theorems hw_defs "register values, parameters and pin assignments"

definition SPU_SET_PRESCALAR_6MHz :: byte where
  [hw_defs]: "SPU_SET_PRESCALAR_6MHz = 0x44"

definition SPU_SET_CHANNEL_1 :: byte where
  [hw_defs]: "SPU_SET_CHANNEL_1 = 0xE0"

definition SPU_SET_CHANNEL_2 :: byte where
  [hw_defs]: "SPU_SET_CHANNEL_2 = 0xE1"

definition SPU_SET_BAND_PASS_FREQUENCY :: byte where
  [hw_defs]: "SPU_SET_BAND_PASS_FREQUENCY = 0x2A"

definition SPU_SET_PROGRAMMABLE_GAIN :: byte where
  [hw_defs]: "SPU_SET_PROGRAMMABLE_GAIN = 0xA2"

definition SPU_SET_INTEGRATOR_TIME :: byte where
  [hw_defs]: "SPU_SET_INTEGRATOR_TIME = 0xCA"

definition KNOCK_THRESHOLD_LEVEL :: byte where
  [hw_defs]: "KNOCK_THRESHOLD_LEVEL = 204"

definition MEASUREMENT_WINDOW_TIME :: nat where
  [hw_defs]: "MEASUREMENT_WINDOW_TIME = 3000"

definition SPU_NSS_PIN :: pin where
  [hw_defs]: "SPU_NSS_PIN = 10"

definition SDCARD_CS_PIN :: pin where
  [hw_defs]: "SDCARD_CS_PIN = 9"

definition SPU_TEST_PIN :: pin where
  [hw_defs]: "SPU_TEST_PIN = 5"

definition SPU_HOLD_PIN :: pin where
  [hw_defs]: "SPU_HOLD_PIN = 4"

definition LED_STATUS :: pin where
  [hw_defs]: "LED_STATUS = 7"

definition LED_LIMIT :: pin where
  [hw_defs]: "LED_LIMIT = 6"

definition ANALOG_INPUT_PIN :: pin where
  [hw_defs]: "ANALOG_INPUT_PIN = 0"

definition ANALOG_OUTPUT_PIN :: pin where
  [hw_defs]: "ANALOG_OUTPUT_PIN = 3"

definition nl_cr :: string where
  "nl_cr = [CHR 0x0A, CHR 0x0D]"

definition emit :: "event \<Rightarrow> 'a board_scheme \<Rightarrow> 'a board_scheme" where
  "emit e s = s\<lparr>trace := trace s @ [e]\<rparr>"

definition digitalWrite :: "pin \<Rightarrow> level \<Rightarrow> 'a board_scheme \<Rightarrow> 'a board_scheme" where
  "digitalWrite p v s = emit (DigitalWrite p v) (s\<lparr>pins := (pins s)(p := v)\<rparr>)"

subsection \<open>Integer rescale\<close>

text \<open>
  Modelled from the spec: \<^verbatim>\<open>map()\<close> belongs to the Arduino core, not to the
  sketches. The spec describes it as the linear rescale with the reference
  implementation's integer truncation; this is the core's formula
  \<^verbatim>\<open>(x - in_min) * (out_max - out_min) / (in_max - in_min) + out_min\<close> on the
  board's 32-bit \<^verbatim>\<open>long\<close>, with C's division truncating towards zero.
\<close>

type_synonym long = "32 word"

definition long_sdiv :: "long \<Rightarrow> long \<Rightarrow> long" where
  "long_sdiv a b = word_of_int (sint a sdiv sint b)"

definition map_long :: "long \<Rightarrow> long \<Rightarrow> long \<Rightarrow> long \<Rightarrow> long \<Rightarrow> long" where
  "map_long x in_min in_max out_min out_max =
     long_sdiv ((x - in_min) * (out_max - out_min)) (in_max - in_min) + out_min"

text \<open>
  \<^verbatim>\<open>uint8_t analogOutput = map(adcValue, 0, 1023, 0, 255);\<close> The 16-bit reading is
  widened to \<^verbatim>\<open>long\<close> and the result is cut to 8 bits by the assignment.
\<close>

definition analogOutput :: "16 word \<Rightarrow> byte" where
  "analogOutput adcValue = ucast (map_long (ucast adcValue) 0 1023 0 255)"

subsection \<open>Single-precision arithmetic\<close>

text \<open>
  \<^verbatim>\<open>float\<close> is IEEE 754 binary32 with round to nearest, ties to even. A finite
  float is the rational number it denotes; \<open>None\<close> stands for a result that is not a
  finite number. \<open>f32_quantum x\<close> is the exponent of the unit in the last place for
  \<open>x\<close>: the least \<open>e\<close> from \<open>-149\<close> (subnormals) to \<open>104\<close> with
  \<open>\<bar>x\<bar> < 2 ^ (e + 24)\<close>.
\<close>

definition f32_emin :: int where
  "f32_emin = -149"

definition f32_emax :: int where
  "f32_emax = 104"

definition f32_quantum :: "rat \<Rightarrow> int option" where
  "f32_quantum x = List.find (\<lambda>e. \<bar>x\<bar> < 2 powi (e + 24)) [f32_emin..f32_emax]"

definition round_half_even :: "rat \<Rightarrow> int" where
  "round_half_even q =
     (let n = \<lfloor>q\<rfloor>; d = q - of_int n
      in if d < 1 / 2 then n else if 1 / 2 < d then n + 1 else if even n then n else n + 1)"

definition f32_round :: "rat \<Rightarrow> rat option" where
  "f32_round x =
     (case f32_quantum x of
        None \<Rightarrow> None
      | Some e \<Rightarrow>
          let y = of_int (round_half_even (x / 2 powi e)) * 2 powi e
          in if \<bar>y\<bar> < 2 powi 128 then Some y else None)"

definition f32_of_int :: "int \<Rightarrow> rat option" where
  "f32_of_int k = f32_round (of_int k)"

definition f32_div :: "rat \<Rightarrow> rat \<Rightarrow> rat option" where
  "f32_div a b = (if b = 0 then None else f32_round (a / b))"

definition f32_mul :: "rat \<Rightarrow> rat \<Rightarrow> rat option" where
  "f32_mul a b = f32_round (a * b)"

text \<open>
  \<^verbatim>\<open>((float)adcValue_UA / 1023) * 100\<close>, the same expression for
  \<^verbatim>\<open>knockChannel1\<close> and \<^verbatim>\<open>knockChannel2\<close>: the reading is converted to float,
  the integer literals are converted to float, then one division and one multiplication.
\<close>

definition knock_percentage :: "16 word \<Rightarrow> rat option" where
  "knock_percentage adc = do {
     x \<leftarrow> f32_of_int (uint adc);
     d \<leftarrow> f32_of_int 1023;
     q \<leftarrow> f32_div x d;
     c \<leftarrow> f32_of_int 100;
     f32_mul q c }"

text \<open>
  The signal conditioner as the specification words it,
  \<^verbatim>\<open>raw_to_percentage(raw: 0..1023) -> float 0..100 = raw/1023*100\<close>,
  evaluated in float arithmetic on the raw count.
\<close>

definition raw_to_percentage :: "nat \<Rightarrow> rat option" where
  "raw_to_percentage raw = do {
     q \<leftarrow> f32_round (of_nat raw / 1023);
     f32_round (q * 100) }"

subsection \<open>Single-channel sketch\<close>

text \<open>
  \<^verbatim>\<open>byte COM_SPI(byte TX_data)\<close>; \<open>rx\<close> is the byte the SPU shifts back during the
  transfer.
\<close>

definition COM_SPI_1ch :: "byte \<Rightarrow> byte \<Rightarrow> 'a board_scheme \<Rightarrow> byte \<times> 'a board_scheme" where
  "COM_SPI_1ch TX_data rx s0 =
     (let s1 = digitalWrite SPU_NSS_PIN LOW s0;
          Response = rx;
          s2 = emit (SpiTransfer TX_data rx) s1;
          s3 = digitalWrite SPU_NSS_PIN HIGH s2;
          s4 = emit (SerialPrint [Str ''SPU_SPI: 0x'']) s3;
          s5 = emit (SerialPrint [Hex Response]) s4;
          s6 = emit (SerialPrint [Str nl_cr]) s5
      in (Response, s6))"

text \<open>
  \<^verbatim>\<open>void setup()\<close>; \<open>spu\<close> gives the SPU's response to each command byte sent
  during start-up.
\<close>

definition setup_1ch :: "(byte \<Rightarrow> byte) \<Rightarrow> 'a board_scheme \<Rightarrow> 'a board_scheme" where
  "setup_1ch spu s0 =
     (let s = emit (SerialBegin 9600) s0;
          s = emit SpiBegin s;
          s = emit (SpiSetClockDivider SPI_CLOCK_DIV16) s;
          s = emit (SpiSetBitOrder MSBFIRST) s;
          s = emit (SpiSetDataMode SPI_MODE1) s;
          s = emit (PinMode SPU_NSS_PIN OUTPUT) s;
          s = emit (PinMode SPU_TEST_PIN OUTPUT) s;
          s = emit (PinMode SPU_HOLD_PIN OUTPUT) s;
          s = emit (PinMode LED_STATUS OUTPUT) s;
          s = emit (PinMode LED_LIMIT OUTPUT) s;
          s = digitalWrite SPU_NSS_PIN HIGH s;
          s = digitalWrite SPU_TEST_PIN HIGH s;
          s = digitalWrite SPU_HOLD_PIN LOW s;
          s = emit (SerialPrint [Str (''Device reset.'' @ nl_cr)]) s;
          s = digitalWrite LED_STATUS HIGH s;
          s = digitalWrite LED_LIMIT HIGH s;
          s = emit (Delay 200) s;
          s = digitalWrite LED_STATUS LOW s;
          s = digitalWrite LED_LIMIT LOW s;
          s = emit (Delay 200) s;
          s = snd (COM_SPI_1ch SPU_SET_PRESCALAR_6MHz (spu SPU_SET_PRESCALAR_6MHz) s);
          s = snd (COM_SPI_1ch SPU_SET_CHANNEL_1 (spu SPU_SET_CHANNEL_1) s);
          s = snd (COM_SPI_1ch SPU_SET_BAND_PASS_FREQUENCY (spu SPU_SET_BAND_PASS_FREQUENCY) s);
          s = snd (COM_SPI_1ch SPU_SET_PROGRAMMABLE_GAIN (spu SPU_SET_PROGRAMMABLE_GAIN) s);
          s = snd (COM_SPI_1ch SPU_SET_INTEGRATOR_TIME (spu SPU_SET_INTEGRATOR_TIME) s)
      in s)"

text \<open>
  One pass through the body of \<^verbatim>\<open>while (1)\<close> in \<^verbatim>\<open>loop()\<close>; \<open>adc\<close> is what
  \<^verbatim>\<open>analogRead\<close> returns in this pass. The literal \<^verbatim>\<open>80\<close> of the comparison is
  converted to float like the other integer literals.
\<close>

definition loop_cycle_1ch :: "16 word \<Rightarrow> 'a board_scheme \<Rightarrow> 'a board_scheme option" where
  "loop_cycle_1ch adc s0 =
     (let s = digitalWrite LED_STATUS HIGH s0;
          s = digitalWrite SPU_HOLD_PIN HIGH s;
          s = emit (DelayMicroseconds MEASUREMENT_WINDOW_TIME) s;
          s = digitalWrite SPU_HOLD_PIN LOW s;
          adcValue_UA = adc;
          s = emit (AnalogRead ANALOG_INPUT_PIN adc) s
      in do {
          percentage \<leftarrow> knock_percentage adcValue_UA;
          limit \<leftarrow> f32_of_int 80;
          let s = emit (AnalogWrite ANALOG_OUTPUT_PIN (analogOutput adcValue_UA)) s;
          let s = (if limit \<le> percentage then digitalWrite LED_LIMIT HIGH s
                   else digitalWrite LED_LIMIT LOW s);
          let s = emit (SerialPrint [Str ''SPU KNOCK LEVEL: '']) s;
          let s = emit (SerialPrint [Float0 percentage]) s;
          let s = emit (SerialPrint [Str (''%'' @ nl_cr)]) s;
          let s = emit (Delay 100) s;
          let s = digitalWrite LED_STATUS LOW s;
          let s = emit (Delay 400) s;
          Some s })"

text \<open>
  \<^verbatim>\<open>loop()\<close> never leaves its \<^verbatim>\<open>while (1)\<close>. \<open>loop_1ch adcs s\<close> is the board after
  as many passes as there are readings in \<open>adcs\<close>, so every finite prefix of the run
  is covered; \<open>None\<close> only if a pass leaves finite float arithmetic.
\<close>

fun loop_1ch :: "16 word list \<Rightarrow> 'a board_scheme \<Rightarrow> 'a board_scheme option" where
  "loop_1ch [] s = Some s"
| "loop_1ch (adc # adcs) s = Option.bind (loop_cycle_1ch adc s) (loop_1ch adcs)"

subsection \<open>Dual-channel sketch with data logging\<close>

definition COM_SPI_2ch :: "byte \<Rightarrow> byte \<Rightarrow> 'a board_scheme \<Rightarrow> byte \<times> 'a board_scheme" where
  "COM_SPI_2ch TX_data rx s0 =
     (let s1 = emit (SpiSetDataMode SPI_MODE1) s0;
          s2 = emit (SpiSetClockDivider SPI_CLOCK_DIV16) s1;
          s3 = digitalWrite SPU_NSS_PIN LOW s2;
          Response = (ucast rx :: 16 word);
          s4 = emit (SpiTransfer TX_data rx) s3;
          s5 = digitalWrite SPU_NSS_PIN HIGH s4
      in (ucast Response, s5))"

text \<open>
  \<^verbatim>\<open>void logData(String logString)\<close>; \<open>card_ok\<close> is the result of
  \<^verbatim>\<open>SD.begin(SDCARD_CS_PIN)\<close> in this call.
\<close>

definition logData :: "piece list \<Rightarrow> bool \<Rightarrow> 'a board_scheme \<Rightarrow> 'a board_scheme" where
  "logData logString card_ok s0 =
     (let s = emit (SdBegin SDCARD_CS_PIN card_ok) s0
      in if card_ok then
           (let s = emit (SdOpenWrite ''log.txt'') s;
                s = emit (FilePrintln logString) s;
                s = emit FileClose s
            in s)
         else emit (SerialPrintln [Str ''Error accessing SD-card.'']) s)"

text \<open>
  \<^verbatim>\<open>void setup()\<close>; \<open>card_ok\<close> is the result of the storage probe, \<open>spu\<close> gives the
  SPU's response to each command byte sent during start-up.
\<close>

definition setup_2ch :: "bool \<Rightarrow> (byte \<Rightarrow> byte) \<Rightarrow> logger_board \<Rightarrow> logger_board" where
  "setup_2ch card_ok spu s0 =
     (let s = emit (SerialBegin 9600) s0;
          s = emit SpiBegin s;
          s = emit (SpiSetBitOrder MSBFIRST) s;
          s = emit (PinMode SPU_NSS_PIN OUTPUT) s;
          s = emit (PinMode SDCARD_CS_PIN OUTPUT) s;
          s = emit (PinMode SPU_TEST_PIN OUTPUT) s;
          s = emit (PinMode SPU_HOLD_PIN OUTPUT) s;
          s = emit (PinMode LED_STATUS OUTPUT) s;
          s = emit (PinMode LED_LIMIT OUTPUT) s;
          s = digitalWrite SPU_NSS_PIN HIGH s;
          s = digitalWrite SDCARD_CS_PIN HIGH s;
          s = digitalWrite SPU_TEST_PIN HIGH s;
          s = digitalWrite SPU_HOLD_PIN LOW s;
          s = emit (SerialPrint [Str (''Device reset.'' @ nl_cr)]) s;
          s = digitalWrite LED_STATUS HIGH s;
          s = digitalWrite LED_LIMIT HIGH s;
          s = emit (Delay 200) s;
          s = digitalWrite LED_STATUS LOW s;
          s = digitalWrite LED_LIMIT LOW s;
          s = emit (Delay 200) s;
          s = emit (SdBegin SDCARD_CS_PIN card_ok) s;
          s = (if card_ok then (emit (SerialPrintln [Str ''Data logging enabled.'']) s)\<lparr>logEnabled := True\<rparr>
               else s);
          s = emit (SerialPrint [Str ''Configuring SPU: 0x'']) s;
          (r, s) = COM_SPI_2ch SPU_SET_PRESCALAR_6MHz (spu SPU_SET_PRESCALAR_6MHz) s;
          s = emit (SerialPrint [Hex r]) s;
          s = emit (SerialPrint [Str '', 0x'']) s;
          (r, s) = COM_SPI_2ch SPU_SET_BAND_PASS_FREQUENCY (spu SPU_SET_BAND_PASS_FREQUENCY) s;
          s = emit (SerialPrint [Hex r]) s;
          s = emit (SerialPrint [Str '', 0x'']) s;
          (r, s) = COM_SPI_2ch SPU_SET_PROGRAMMABLE_GAIN (spu SPU_SET_PROGRAMMABLE_GAIN) s;
          s = emit (SerialPrint [Hex r]) s;
          s = emit (SerialPrint [Str '', 0x'']) s;
          (r, s) = COM_SPI_2ch SPU_SET_INTEGRATOR_TIME (spu SPU_SET_INTEGRATOR_TIME) s;
          s = emit (SerialPrint [Hex r]) s;
          s = emit (SerialPrint [Str nl_cr]) s
      in s)"

text \<open>What the hardware answers during one pass of the dual-channel loop.\<close>

record cycle =
  adc1 :: "16 word"
  adc2 :: "16 word"
  spu_rx :: "byte \<Rightarrow> byte"
  sd_ok :: bool

definition loop_cycle_2ch :: "cycle \<Rightarrow> logger_board \<Rightarrow> logger_board option" where
  "loop_cycle_2ch c s0 =
     (let s = digitalWrite LED_STATUS HIGH s0;
          s = snd (COM_SPI_2ch SPU_SET_CHANNEL_1 (spu_rx c SPU_SET_CHANNEL_1) s);
          s = digitalWrite SPU_HOLD_PIN HIGH s;
          s = emit (DelayMicroseconds MEASUREMENT_WINDOW_TIME) s;
          s = digitalWrite SPU_HOLD_PIN LOW s;
          adcChannel1 = adc1 c;
          s = emit (AnalogRead ANALOG_INPUT_PIN adcChannel1) s;
          s = snd (COM_SPI_2ch SPU_SET_CHANNEL_2 (spu_rx c SPU_SET_CHANNEL_2) s);
          s = digitalWrite SPU_HOLD_PIN HIGH s;
          s = emit (DelayMicroseconds MEASUREMENT_WINDOW_TIME) s;
          s = digitalWrite SPU_HOLD_PIN LOW s;
          adcChannel2 = adc2 c;
          s = emit (AnalogRead ANALOG_INPUT_PIN adcChannel2) s
      in do {
          knockChannel1 \<leftarrow> knock_percentage adcChannel1;
          knockChannel2 \<leftarrow> knock_percentage adcChannel2;
          let adcValue = (if adcChannel1 < adcChannel2 then adcChannel2 else adcChannel1);
          let s = emit (AnalogWrite ANALOG_OUTPUT_PIN (analogOutput adcValue)) s;
          let s = (if KNOCK_THRESHOLD_LEVEL \<le> analogOutput adcValue then digitalWrite LED_LIMIT HIGH s
                   else digitalWrite LED_LIMIT LOW s);
          let txString = [Str ''Channel 1: '', Float0 knockChannel1, Str ''% - Channel 2: '',
                          Float0 knockChannel2, Str ''%''];
          let s = emit (SerialPrintln txString) s;
          let s = (if logEnabled s = True then logData txString (sd_ok c) s else s);
          let s = emit (Delay 100) s;
          let s = digitalWrite LED_STATUS LOW s;
          let s = emit (Delay 400) s;
          Some s })"

fun loop_2ch :: "cycle list \<Rightarrow> logger_board \<Rightarrow> logger_board option" where
  "loop_2ch [] s = Some s"
| "loop_2ch (c # cs) s = Option.bind (loop_cycle_2ch c s) (loop_2ch cs)"

subsection \<open>Reset state and whole runs\<close>

text \<open>
  After reset the output latches are low, nothing has happened yet, and the global
  \<^verbatim>\<open>logEnabled\<close> holds its initialiser \<^verbatim>\<open>false\<close>.
\<close>

definition power_on_1ch :: board where
  "power_on_1ch = \<lparr>pins = (\<lambda>p. LOW), trace = []\<rparr>"

definition power_on_2ch :: logger_board where
  "power_on_2ch = \<lparr>pins = (\<lambda>p. LOW), trace = [], logEnabled = False\<rparr>"

definition run_1ch :: "(byte \<Rightarrow> byte) \<Rightarrow> 16 word list \<Rightarrow> board option" where
  "run_1ch spu adcs = loop_1ch adcs (setup_1ch spu power_on_1ch)"

definition run_2ch :: "bool \<Rightarrow> (byte \<Rightarrow> byte) \<Rightarrow> cycle list \<Rightarrow> logger_board option" where
  "run_2ch card_ok spu cs = loop_2ch cs (setup_2ch card_ok spu power_on_2ch)"

text \<open>An SPU that answers every command with a zero byte, for concrete runs.\<close>

definition spu_silent :: "byte \<Rightarrow> byte" where
  "spu_silent tx = 0"

text \<open>A pass in which both channels read the same mid-scale value.\<close>

definition cycle_tie :: cycle where
  "cycle_tie = \<lparr>adc1 = 500, adc2 = 500, spu_rx = spu_silent, sd_ok = False\<rparr>"

subsection \<open>Observations on traces\<close>

text \<open>The events a pass has added to the trace.\<close>

definition added :: "'a board_scheme \<Rightarrow> 'a board_scheme \<Rightarrow> event list" where
  "added s s' = drop (length (trace s)) (trace s')"

text \<open>The steps of a measurement window: SPI transfers, writes to the hold pin,
  microsecond waits and ADC samples.\<close>

fun measurement_event :: "event \<Rightarrow> bool" where
  "measurement_event (SpiTransfer tx rx) = True"
| "measurement_event (DigitalWrite p v) = (p = SPU_HOLD_PIN)"
| "measurement_event (DelayMicroseconds us) = True"
| "measurement_event (AnalogRead p v) = True"
| "measurement_event e = False"

text \<open>The command bytes sent to the SPU, in order.\<close>

fun spi_byte :: "event \<Rightarrow> byte list" where
  "spi_byte (SpiTransfer tx rx) = [tx]"
| "spi_byte e = []"

definition spi_bytes :: "event list \<Rightarrow> byte list" where
  "spi_bytes evs = concat (map spi_byte evs)"

text \<open>The duty cycles handed to \<^verbatim>\<open>analogWrite\<close>, in order.\<close>

fun analog_write :: "event \<Rightarrow> byte list" where
  "analog_write (AnalogWrite p v) = [v]"
| "analog_write e = []"

definition analog_writes :: "event list \<Rightarrow> byte list" where
  "analog_writes evs = concat (map analog_write evs)"

text \<open>The results of the calls of \<^verbatim>\<open>SD.begin\<close>, in order.\<close>

fun storage_probe :: "event \<Rightarrow> bool list" where
  "storage_probe (SdBegin p ok) = [ok]"
| "storage_probe e = []"

definition storage_probes :: "event list \<Rightarrow> bool list" where
  "storage_probes evs = concat (map storage_probe evs)"

text \<open>The lines written to the log file, in order.\<close>

fun file_line :: "event \<Rightarrow> piece list list" where
  "file_line (FilePrintln t) = [t]"
| "file_line e = []"

definition file_lines :: "event list \<Rightarrow> piece list list" where
  "file_lines evs = concat (map file_line evs)"

text \<open>The lines of text sent to the serial port with \<^verbatim>\<open>println\<close>, in order.\<close>

fun serial_line :: "event \<Rightarrow> piece list list" where
  "serial_line (SerialPrintln t) = [t]"
| "serial_line e = []"

definition serial_lines :: "event list \<Rightarrow> piece list list" where
  "serial_lines evs = concat (map serial_line evs)"

text \<open>The percentages printed on the serial port, in order.\<close>

fun piece_float :: "piece \<Rightarrow> rat list" where
  "piece_float (Float0 p) = [p]"
| "piece_float t = []"

fun serial_floats :: "event \<Rightarrow> rat list" where
  "serial_floats (SerialPrint t) = concat (map piece_float t)"
| "serial_floats (SerialPrintln t) = concat (map piece_float t)"
| "serial_floats e = []"

definition percentages_printed :: "event list \<Rightarrow> rat list" where
  "percentages_printed evs = concat (map serial_floats evs)"

text \<open>The number of completed passes: each pass ends with \<^verbatim>\<open>delay(400)\<close>.\<close>

definition passes :: "event list \<Rightarrow> nat" where
  "passes evs = length (filter (\<lambda>e. e = Delay 400) evs)"

text \<open>
  Chip-select discipline along a trace, starting from the level \<open>lv\<close> of the SPU
  select line: a transfer needs the line low, every other action needs it high, and
  only writes to the select pin change it. \<open>None\<close> marks a violation; otherwise the
  result is the level at the end.
\<close>

fun cs_check :: "level \<Rightarrow> event list \<Rightarrow> level option" where
  "cs_check lv [] = Some lv"
| "cs_check lv (SpiTransfer tx rx # es) = (if lv = LOW then cs_check lv es else None)"
| "cs_check lv (DigitalWrite p v # es) =
     (if p = SPU_NSS_PIN then cs_check v es
      else if lv = HIGH then cs_check lv es else None)"
| "cs_check lv (e # es) = (if lv = HIGH then cs_check lv es else None)"

text \<open>What one call of \<^verbatim>\<open>logData\<close> adds to the trace.\<close>

definition log_events :: "piece list \<Rightarrow> bool \<Rightarrow> event list" where
  "log_events t ok =
     (if ok then [SdBegin SDCARD_CS_PIN True, SdOpenWrite ''log.txt'', FilePrintln t, FileClose]
      else [SdBegin SDCARD_CS_PIN False, SerialPrintln [Str ''Error accessing SD-card.'']])"

text \<open>
  The events one pass of each loop appends to the trace, given the percentages it
  computed (and, for the dual-channel loop, the logging flag). The loop bodies are shown
  to append exactly these lists.
\<close>

definition cycle_events_1ch :: "16 word \<Rightarrow> rat \<Rightarrow> event list" where
  "cycle_events_1ch adc p =
     [DigitalWrite LED_STATUS HIGH,
      DigitalWrite SPU_HOLD_PIN HIGH, DelayMicroseconds MEASUREMENT_WINDOW_TIME,
      DigitalWrite SPU_HOLD_PIN LOW, AnalogRead ANALOG_INPUT_PIN adc,
      AnalogWrite ANALOG_OUTPUT_PIN (analogOutput adc),
      DigitalWrite LED_LIMIT (if 80 \<le> p then HIGH else LOW),
      SerialPrint [Str ''SPU KNOCK LEVEL: ''], SerialPrint [Float0 p],
      SerialPrint [Str (''%'' @ nl_cr)],
      Delay 100, DigitalWrite LED_STATUS LOW, Delay 400]"

definition txString_2ch :: "rat \<Rightarrow> rat \<Rightarrow> piece list" where
  "txString_2ch p1 p2 =
     [Str ''Channel 1: '', Float0 p1, Str ''% - Channel 2: '', Float0 p2, Str ''%'']"

definition cycle_events_2ch :: "cycle \<Rightarrow> rat \<Rightarrow> rat \<Rightarrow> bool \<Rightarrow> event list" where
  "cycle_events_2ch c p1 p2 logging =
     [DigitalWrite LED_STATUS HIGH,
      SpiSetDataMode SPI_MODE1, SpiSetClockDivider SPI_CLOCK_DIV16,
      DigitalWrite SPU_NSS_PIN LOW, SpiTransfer SPU_SET_CHANNEL_1 (spu_rx c SPU_SET_CHANNEL_1),
      DigitalWrite SPU_NSS_PIN HIGH,
      DigitalWrite SPU_HOLD_PIN HIGH, DelayMicroseconds MEASUREMENT_WINDOW_TIME,
      DigitalWrite SPU_HOLD_PIN LOW, AnalogRead ANALOG_INPUT_PIN (adc1 c),
      SpiSetDataMode SPI_MODE1, SpiSetClockDivider SPI_CLOCK_DIV16,
      DigitalWrite SPU_NSS_PIN LOW, SpiTransfer SPU_SET_CHANNEL_2 (spu_rx c SPU_SET_CHANNEL_2),
      DigitalWrite SPU_NSS_PIN HIGH,
      DigitalWrite SPU_HOLD_PIN HIGH, DelayMicroseconds MEASUREMENT_WINDOW_TIME,
      DigitalWrite SPU_HOLD_PIN LOW, AnalogRead ANALOG_INPUT_PIN (adc2 c),
      AnalogWrite ANALOG_OUTPUT_PIN (analogOutput (max (adc1 c) (adc2 c))),
      DigitalWrite LED_LIMIT
        (if KNOCK_THRESHOLD_LEVEL \<le> analogOutput (max (adc1 c) (adc2 c)) then HIGH else LOW),
      SerialPrintln (txString_2ch p1 p2)]
     @ (if logging then log_events (txString_2ch p1 p2) (sd_ok c) else [])
     @ [Delay 100, DigitalWrite LED_STATUS LOW, Delay 400]"

text \<open>
  The events \<^verbatim>\<open>setup()\<close> appends to the trace in each sketch; the set-up functions
  are shown to append exactly these lists.
\<close>

definition spi_events_1ch :: "byte \<Rightarrow> byte \<Rightarrow> event list" where
  "spi_events_1ch tx rx =
     [DigitalWrite SPU_NSS_PIN LOW, SpiTransfer tx rx, DigitalWrite SPU_NSS_PIN HIGH,
      SerialPrint [Str ''SPU_SPI: 0x''], SerialPrint [Hex rx], SerialPrint [Str nl_cr]]"

definition spi_events_2ch :: "byte \<Rightarrow> byte \<Rightarrow> event list" where
  "spi_events_2ch tx rx =
     [SpiSetDataMode SPI_MODE1, SpiSetClockDivider SPI_CLOCK_DIV16,
      DigitalWrite SPU_NSS_PIN LOW, SpiTransfer tx rx, DigitalWrite SPU_NSS_PIN HIGH]"

definition setup_events_1ch :: "(byte \<Rightarrow> byte) \<Rightarrow> event list" where
  "setup_events_1ch spu =
     [SerialBegin 9600, SpiBegin, SpiSetClockDivider SPI_CLOCK_DIV16, SpiSetBitOrder MSBFIRST,
      SpiSetDataMode SPI_MODE1,
      PinMode SPU_NSS_PIN OUTPUT, PinMode SPU_TEST_PIN OUTPUT, PinMode SPU_HOLD_PIN OUTPUT,
      PinMode LED_STATUS OUTPUT, PinMode LED_LIMIT OUTPUT,
      DigitalWrite SPU_NSS_PIN HIGH, DigitalWrite SPU_TEST_PIN HIGH, DigitalWrite SPU_HOLD_PIN LOW,
      SerialPrint [Str (''Device reset.'' @ nl_cr)],
      DigitalWrite LED_STATUS HIGH, DigitalWrite LED_LIMIT HIGH, Delay 200,
      DigitalWrite LED_STATUS LOW, DigitalWrite LED_LIMIT LOW, Delay 200]
     @ spi_events_1ch SPU_SET_PRESCALAR_6MHz (spu SPU_SET_PRESCALAR_6MHz)
     @ spi_events_1ch SPU_SET_CHANNEL_1 (spu SPU_SET_CHANNEL_1)
     @ spi_events_1ch SPU_SET_BAND_PASS_FREQUENCY (spu SPU_SET_BAND_PASS_FREQUENCY)
     @ spi_events_1ch SPU_SET_PROGRAMMABLE_GAIN (spu SPU_SET_PROGRAMMABLE_GAIN)
     @ spi_events_1ch SPU_SET_INTEGRATOR_TIME (spu SPU_SET_INTEGRATOR_TIME)"

definition setup_events_2ch :: "bool \<Rightarrow> (byte \<Rightarrow> byte) \<Rightarrow> event list" where
  "setup_events_2ch card_ok spu =
     [SerialBegin 9600, SpiBegin, SpiSetBitOrder MSBFIRST,
      PinMode SPU_NSS_PIN OUTPUT, PinMode SDCARD_CS_PIN OUTPUT, PinMode SPU_TEST_PIN OUTPUT,
      PinMode SPU_HOLD_PIN OUTPUT, PinMode LED_STATUS OUTPUT, PinMode LED_LIMIT OUTPUT,
      DigitalWrite SPU_NSS_PIN HIGH, DigitalWrite SDCARD_CS_PIN HIGH,
      DigitalWrite SPU_TEST_PIN HIGH, DigitalWrite SPU_HOLD_PIN LOW,
      SerialPrint [Str (''Device reset.'' @ nl_cr)],
      DigitalWrite LED_STATUS HIGH, DigitalWrite LED_LIMIT HIGH, Delay 200,
      DigitalWrite LED_STATUS LOW, DigitalWrite LED_LIMIT LOW, Delay 200,
      SdBegin SDCARD_CS_PIN card_ok]
     @ (if card_ok then [SerialPrintln [Str ''Data logging enabled.'']] else [])
     @ [SerialPrint [Str ''Configuring SPU: 0x'']]
     @ spi_events_2ch SPU_SET_PRESCALAR_6MHz (spu SPU_SET_PRESCALAR_6MHz)
     @ [SerialPrint [Hex (spu SPU_SET_PRESCALAR_6MHz)], SerialPrint [Str '', 0x'']]
     @ spi_events_2ch SPU_SET_BAND_PASS_FREQUENCY (spu SPU_SET_BAND_PASS_FREQUENCY)
     @ [SerialPrint [Hex (spu SPU_SET_BAND_PASS_FREQUENCY)], SerialPrint [Str '', 0x'']]
     @ spi_events_2ch SPU_SET_PROGRAMMABLE_GAIN (spu SPU_SET_PROGRAMMABLE_GAIN)
     @ [SerialPrint [Hex (spu SPU_SET_PROGRAMMABLE_GAIN)], SerialPrint [Str '', 0x'']]
     @ spi_events_2ch SPU_SET_INTEGRATOR_TIME (spu SPU_SET_INTEGRATOR_TIME)
     @ [SerialPrint [Hex (spu SPU_SET_INTEGRATOR_TIME)], SerialPrint [Str nl_cr]]"

text \<open>The part of a trace that starts where the SPU select line is first driven high.\<close>

definition since_select_raised :: "event list \<Rightarrow> event list" where
  "since_select_raised evs = dropWhile (\<lambda>e. e \<noteq> DigitalWrite SPU_NSS_PIN HIGH) evs"

text \<open>The level of the limit LED after one pass of the single-channel loop.\<close>

definition limit_after_1ch :: "16 word \<Rightarrow> board \<Rightarrow> level option" where
  "limit_after_1ch adc s = map_option (\<lambda>s'. pins s' LED_LIMIT) (loop_cycle_1ch adc s)"

section \<open>Properties of the integer rescale\<close>

lemma uint_adc_bound: "uint (adc :: 16 word) < 65536"
  using uint_bounded [of adc] by simp

lemma sint_long_small: "0 \<le> k \<Longrightarrow> k < 2 ^ 31 \<Longrightarrow> sint (word_of_int k :: long) = k"
  by (simp add: sint_sbintrunc' signed_take_bit_int_eq_self)

lemma sint_adc_times: "sint ((ucast (adc :: 16 word) :: long) * 255) = uint adc * 255"
proof -
  have "(ucast adc :: long) * 255 = word_of_int (uint adc * 255)"
    by simp
  moreover have "0 \<le> uint adc * 255" "uint adc * 255 < 2 ^ 31"
    using uint_adc_bound [of adc] by simp_all
  ultimately show ?thesis
    by (simp only: sint_long_small)
qed

lemma sdiv_nonneg: "0 \<le> k \<Longrightarrow> 0 < l \<Longrightarrow> k sdiv l = k div (l :: int)"
  by (cases "k = 0") (simp_all add: signed_divide_int_def)

lemma rescale_bounds:
  "0 \<le> uint (adc :: 16 word) * 255 div 1023" "uint adc * 255 div 1023 < 2 ^ 31"
proof -
  show "0 \<le> uint adc * 255 div 1023"
    by (rule pos_imp_zdiv_nonneg_iff [THEN iffD2]) simp_all
  have "uint adc * 255 div 1023 \<le> uint adc * 255"
    by (simp add: zdiv_mono2 [of "uint adc * 255" 1 1023, simplified])
  then show "uint adc * 255 div 1023 < 2 ^ 31"
    using uint_adc_bound [of adc] by simp
qed

lemma map_long_adc_word:
  "map_long (ucast (adc :: 16 word)) 0 1023 0 255 = word_of_int (uint adc * 255 div 1023)"
  by (simp only: map_long_def long_sdiv_def diff_zero add_0_right sint_adc_times)
    (simp add: sdiv_nonneg)

lemma map_long_adc:
  "sint (map_long (ucast (adc :: 16 word)) 0 1023 0 255) = uint adc * 255 div 1023"
  using rescale_bounds [of adc] by (simp only: map_long_adc_word sint_long_small)

lemma analogOutput_word: "analogOutput adc = word_of_int (uint adc * 255 div 1023)"
  unfolding analogOutput_def map_long_adc_word
  by (simp add: ucast_eq word_of_int_eq_iff uint_word_of_int take_bit_eq_mod mod_mod_cancel)

lemma uint_analogOutput: "uint (analogOutput adc) = (uint adc * 255 div 1023) mod 256"
  by (simp add: analogOutput_word uint_word_of_int take_bit_eq_mod)

lemma adc_in_range: "(adc :: 16 word) \<le> 1023 \<longleftrightarrow> uint adc \<le> 1023"
  by (simp add: word_le_def)

lemma rescale_in_range:
  assumes "(adc :: 16 word) \<le> 1023"
  shows "uint adc * 255 div 1023 \<le> 255"
proof -
  have "uint adc * 255 \<le> 1023 * 255" using assms by (simp add: adc_in_range)
  then have "uint adc * 255 div 1023 \<le> 1023 * 255 div 1023" by (rule zdiv_mono1) simp
  then show ?thesis by simp
qed

lemma uint_analogOutput_in_range:
  assumes "(adc :: 16 word) \<le> 1023"
  shows "uint (analogOutput adc) = uint adc * 255 div 1023"
  using rescale_in_range [OF assms] rescale_bounds(1) [of adc]
  by (simp add: uint_analogOutput)

lemma analogOutput_mono:
  assumes "adc \<le> adc'" "adc' \<le> 1023"
  shows "analogOutput adc \<le> analogOutput adc'"
proof -
  have le: "adc \<le> 1023" using assms by simp
  have "uint adc * 255 \<le> uint adc' * 255" using assms(1) by (simp add: word_le_def)
  then have "uint adc * 255 div 1023 \<le> uint adc' * 255 div 1023" by (rule zdiv_mono1) simp
  then show ?thesis
    by (simp add: word_le_def uint_analogOutput_in_range [OF le]
        uint_analogOutput_in_range [OF assms(2)])
qed

lemma rescale_floor: "\<lfloor>(of_int r :: rat) / 1023 * 255\<rfloor> = r * 255 div 1023"
proof -
  have "(of_int r :: rat) / 1023 * 255 = of_int (r * 255) / of_int 1023" by simp
  then show ?thesis by (simp only: floor_divide_of_int_eq)
qed

section \<open>Properties of single-precision rounding\<close>

lemma pow2_mono: "m \<le> n \<Longrightarrow> (2::rat) powi m \<le> 2 powi n"
  by (rule power_int_increasing) simp_all

lemma pow2_add: "(2::rat) powi (m + n) = 2 powi m * 2 powi n"
  by (rule power_int_add) simp

lemma f32_exps_nth: "i < 254 \<Longrightarrow> [f32_emin..f32_emax] ! i = f32_emin + int i"
  by (rule nth_upto) (simp add: f32_emin_def f32_emax_def)

lemma f32_exps_length: "length [f32_emin..f32_emax] = 254"
  by (simp add: f32_emin_def f32_emax_def)

lemma f32_quantumI:
  assumes "-149 \<le> e" "e \<le> 104" "\<bar>x\<bar> < 2 powi (e + 24)"
    and lo: "e = -149 \<or> 2 powi (e + 23) \<le> \<bar>x\<bar>"
  shows "f32_quantum x = Some e"
proof -
  let ?P = "\<lambda>e. \<bar>x\<bar> < 2 powi (e + 24)"
  let ?i = "nat (e + 149)"
  have len: "?i < 254" using assms by simp
  have nth: "[f32_emin..f32_emax] ! ?i = e"
    using assms by (simp only: f32_exps_nth [OF len]) (simp add: f32_emin_def)
  have "\<not> ?P ([f32_emin..f32_emax] ! j)" if "j < ?i" for j
  proof -
    have "j < 254" using that len by simp
    then have j: "[f32_emin..f32_emax] ! j = -149 + int j"
      by (simp only: f32_exps_nth) (simp add: f32_emin_def)
    from that have "e \<noteq> -149" by auto
    with lo have "2 powi (e + 23) \<le> \<bar>x\<bar>" by simp
    moreover have "(2::rat) powi (-149 + int j + 24) \<le> 2 powi (e + 23)"
      using that by (intro pow2_mono) linarith
    ultimately show ?thesis unfolding j by linarith
  qed
  with len nth assms(3) show ?thesis
    unfolding f32_quantum_def find_Some_iff f32_exps_length by (intro exI [of _ ?i]) simp
qed

lemma f32_quantumD:
  assumes "f32_quantum x = Some e"
  shows "-149 \<le> e" "e \<le> 104" "\<bar>x\<bar> < 2 powi (e + 24)" "e = -149 \<or> 2 powi (e + 23) \<le> \<bar>x\<bar>"
proof -
  let ?P = "\<lambda>e. \<bar>x\<bar> < 2 powi (e + 24)"
  from assms obtain i where i: "i < 254" "?P ([f32_emin..f32_emax] ! i)"
    "e = [f32_emin..f32_emax] ! i" "\<forall>j<i. \<not> ?P ([f32_emin..f32_emax] ! j)"
    unfolding f32_quantum_def find_Some_iff f32_exps_length by blast
  from i(1) have e: "e = -149 + int i"
    unfolding i(3) by (simp only: f32_exps_nth) (simp add: f32_emin_def)
  from i(1) e show "-149 \<le> e" "e \<le> 104" by simp_all
  from i(2) i(3) show "\<bar>x\<bar> < 2 powi (e + 24)" by simp
  show "e = -149 \<or> 2 powi (e + 23) \<le> \<bar>x\<bar>"
  proof (cases i)
    case 0
    with e show ?thesis by simp
  next
    case (Suc j)
    have "j < 254" using i(1) Suc by simp
    then have "[f32_emin..f32_emax] ! j = e - 1"
      by (simp only: f32_exps_nth) (simp add: f32_emin_def e Suc)
    moreover from i(4) Suc have "\<not> ?P ([f32_emin..f32_emax] ! j)" by simp
    ultimately have "\<not> \<bar>x\<bar> < 2 powi (e - 1 + 24)" by simp
    moreover have "e - 1 + 24 = e + 23" by simp
    ultimately have "\<not> \<bar>x\<bar> < 2 powi (e + 23)" by metis
    then show ?thesis by (simp only: not_less) simp
  qed
qed

lemma f32_quantum_total:
  assumes "\<bar>x\<bar> < 2 powi 128"
  shows "\<exists>e. f32_quantum x = Some e"
proof -
  have "f32_emax \<in> set [f32_emin..f32_emax]" by (simp add: f32_emin_def f32_emax_def)
  moreover have "\<bar>x\<bar> < 2 powi (f32_emax + 24)" using assms by (simp add: f32_emax_def)
  ultimately have "List.find (\<lambda>e. \<bar>x\<bar> < 2 powi (e + 24)) [f32_emin..f32_emax] \<noteq> None"
    unfolding find_None_iff by blast
  then show ?thesis by (simp add: f32_quantum_def)
qed

lemma f32_quantum_le:
  assumes "f32_quantum x = Some e" "-149 \<le> k" "\<bar>x\<bar> < 2 powi (k + 24)"
  shows "e \<le> k"
proof (rule ccontr)
  assume "\<not> e \<le> k"
  then have k: "k + 24 \<le> e + 23" "e \<noteq> -149" using assms(2) by simp_all
  from f32_quantumD(4) [OF assms(1)] k(2) have "2 powi (e + 23) \<le> \<bar>x\<bar>" by simp
  moreover from pow2_mono [OF k(1)] have "(2::rat) powi (k + 24) \<le> 2 powi (e + 23)" .
  ultimately show False using assms(3) by linarith
qed

lemma round_half_even_of_int: "round_half_even (of_int n) = n"
  by (simp add: round_half_even_def)

lemma round_half_even_bounds:
  "of_int (round_half_even q) \<le> q + 1 / 2" "q - 1 / 2 \<le> of_int (round_half_even q)"
proof -
  have fl: "of_int \<lfloor>q\<rfloor> \<le> q" "q < of_int \<lfloor>q\<rfloor> + 1" by linarith+
  show "of_int (round_half_even q) \<le> q + 1 / 2"
    unfolding round_half_even_def Let_def using fl by (simp split: if_splits; linarith)
  show "q - 1 / 2 \<le> of_int (round_half_even q)"
    unfolding round_half_even_def Let_def using fl by (simp split: if_splits; linarith)
qed

lemma round_half_even_mono:
  assumes "q \<le> q'"
  shows "round_half_even q \<le> round_half_even q'"
proof -
  have fl: "\<lfloor>q\<rfloor> \<le> \<lfloor>q'\<rfloor>" using assms by (rule floor_mono)
  have up: "round_half_even q \<le> \<lfloor>q\<rfloor> + 1" and lo: "\<lfloor>q'\<rfloor> \<le> round_half_even q'"
    by (simp_all add: round_half_even_def Let_def)
  show ?thesis
  proof (cases "\<lfloor>q\<rfloor> = \<lfloor>q'\<rfloor>")
    case True
    with assms show ?thesis
      by (auto simp: round_half_even_def Let_def)
  next
    case False
    with fl have "\<lfloor>q\<rfloor> + 1 \<le> \<lfloor>q'\<rfloor>" by simp
    with up lo show ?thesis by linarith
  qed
qed


lemma f32_round_unfold:
  assumes "f32_round x = Some a"
  obtains e where "f32_quantum x = Some e"
    "a = of_int (round_half_even (x / 2 powi e)) * 2 powi e"
  using assms by (auto simp: f32_round_def Let_def split: option.splits if_splits)

lemma f32_roundI:
  assumes "-149 \<le> e" "e \<le> 104" "\<bar>x\<bar> < 2 powi (e + 24)"
    and "e = -149 \<or> 2 powi (e + 23) \<le> \<bar>x\<bar>"
    and "round_half_even (x / 2 powi e) = m"
    and "a = of_int m * 2 powi e"
    and "\<bar>a\<bar> < 2 powi 128"
  shows "f32_round x = Some a"
  using f32_quantumI [OF assms(1-4)] assms(5-7) by (simp add: f32_round_def)

lemma scaled_bound:
  assumes "\<bar>x :: rat\<bar> < 2 powi (e + 24)"
  shows "\<bar>x / 2 powi e\<bar> < 2 ^ 24"
proof -
  have pos: "(0::rat) < 2 powi e" by simp
  have "\<bar>x\<bar> < 2 ^ 24 * 2 powi e"
    using assms by (simp add: pow2_add mult.commute)
  then have "\<bar>x\<bar> / 2 powi e < 2 ^ 24"
    using pos by (simp add: pos_divide_less_eq)
  then show ?thesis by simp
qed

lemma round_half_even_abs_le:
  assumes "\<bar>q\<bar> \<le> of_int n"
  shows "\<bar>round_half_even q\<bar> \<le> n"
proof -
  from assms have "of_int (- n) \<le> q" "q \<le> of_int n" by simp_all
  from round_half_even_mono [OF this(1)] round_half_even_mono [OF this(2)]
  have "- n \<le> round_half_even q" "round_half_even q \<le> n"
    by (simp_all only: round_half_even_of_int)
  then show ?thesis by simp
qed

lemma f32_round_bounded:
  assumes k: "-149 \<le> k" "k \<le> 103" and x: "\<bar>x\<bar> < 2 powi (k + 24)"
  shows "\<exists>a. f32_round x = Some a \<and> \<bar>a\<bar> \<le> 2 powi (k + 24) \<and> \<bar>a - x\<bar> \<le> 2 powi (k - 1)"
proof -
  have "(2::rat) powi (k + 24) \<le> 2 powi 127" using k by (intro pow2_mono) simp
  also have "\<dots> < (2::rat) powi 128" by simp
  finally have top: "(2::rat) powi (k + 24) < 2 powi 128" .
  with x have "\<bar>x\<bar> < 2 powi 128" by linarith
  then obtain e where e: "f32_quantum x = Some e" using f32_quantum_total by blast
  have ek: "e \<le> k" using e k(1) x by (rule f32_quantum_le)
  define m where "m = round_half_even (x / 2 powi e)"
  define a where "a = of_int m * (2::rat) powi e"
  have pos: "(0::rat) < 2 powi e" by simp
  have "\<bar>x / 2 powi e\<bar> \<le> of_int (2 ^ 24)"
    using scaled_bound [OF f32_quantumD(3) [OF e]] by simp
  then have "\<bar>m\<bar> \<le> 2 ^ 24" unfolding m_def by (rule round_half_even_abs_le)
  then have "\<bar>of_int m :: rat\<bar> \<le> 2 ^ 24"
    by (metis of_int_abs of_int_le_iff of_int_numeral of_int_power)
  then have "\<bar>a\<bar> \<le> 2 ^ 24 * 2 powi e"
    unfolding a_def abs_mult using pos by (simp add: mult_right_mono)
  also have "\<dots> = 2 powi (e + 24)" by (simp add: pow2_add)
  also have "\<dots> \<le> 2 powi (k + 24)" using ek by (intro pow2_mono) simp
  finally have abs_a: "\<bar>a\<bar> \<le> 2 powi (k + 24)" .
  have "\<bar>of_int m - x / 2 powi e\<bar> \<le> 1 / 2"
    using round_half_even_bounds [of "x / 2 powi e"] unfolding m_def by linarith
  then have "\<bar>of_int m - x / 2 powi e\<bar> * 2 powi e \<le> 1 / 2 * 2 powi e"
    using pos by (intro mult_right_mono) simp_all
  moreover have "\<bar>of_int m - x / 2 powi e\<bar> * 2 powi e = \<bar>a - x\<bar>"
  proof -
    have "\<bar>of_int m - x / 2 powi e\<bar> * 2 powi e = \<bar>(of_int m - x / 2 powi e) * 2 powi e\<bar>"
      by (simp add: abs_mult)
    also have "(of_int m - x / 2 powi e) * 2 powi e = a - x"
      by (simp add: a_def algebra_simps)
    finally show ?thesis .
  qed
  moreover have "1 / 2 * (2::rat) powi e = 2 powi (e - 1)"
    by (simp add: power_int_diff)
  moreover have "(2::rat) powi (e - 1) \<le> 2 powi (k - 1)" using ek by (intro pow2_mono) simp
  ultimately have err: "\<bar>a - x\<bar> \<le> 2 powi (k - 1)" by linarith
  have "f32_round x = Some a"
    using e abs_a top by (simp add: f32_round_def a_def m_def)
  with abs_a err show ?thesis by blast
qed

lemma f32_round_of_int:
  assumes "\<bar>n\<bar> < 2 ^ 24"
  shows "f32_round (of_int n) = Some (of_int n)"
proof -
  have x: "\<bar>of_int n :: rat\<bar> < 2 powi (0 + 24)"
    using assms by (simp flip: of_int_abs)
  from f32_round_bounded [OF _ _ x] obtain a where a: "f32_round (of_int n) = Some a"
    by auto
  then obtain e where e: "f32_quantum (of_int n) = Some e"
    and a_eq: "a = of_int (round_half_even (of_int n / 2 powi e)) * 2 powi e"
    by (rule f32_round_unfold)
  have "e \<le> 0" using e _ x by (rule f32_quantum_le) simp
  then have p: "(2::rat) powi e = 1 / 2 ^ nat (- e)"
    by (cases "e = 0") (simp_all add: power_int_def field_simps)
  have "of_int n / (2::rat) powi e = of_int (n * 2 ^ nat (- e))"
    by (simp add: p)
  then have "round_half_even (of_int n / 2 powi e) = n * 2 ^ nat (- e)"
    by (simp only: round_half_even_of_int)
  then have "a = of_int n" unfolding a_eq by (simp add: p)
  with a show ?thesis by simp
qed

lemma f32_round_mono:
  assumes "0 \<le> x" "x \<le> y" "f32_round x = Some a" "f32_round y = Some b"
  shows "a \<le> b"
proof -
  from assms(3) obtain ex where ex: "f32_quantum x = Some ex"
    and a: "a = of_int (round_half_even (x / 2 powi ex)) * 2 powi ex"
    by (rule f32_round_unfold)
  from assms(4) obtain ey where ey: "f32_quantum y = Some ey"
    and b: "b = of_int (round_half_even (y / 2 powi ey)) * 2 powi ey"
    by (rule f32_round_unfold)
  have absx: "\<bar>x\<bar> = x" and absy: "\<bar>y\<bar> = y" using assms(1,2) by simp_all
  have "\<bar>x\<bar> < 2 powi (ey + 24)"
    using f32_quantumD(3) [OF ey] assms(2) absx absy by linarith
  with ex f32_quantumD(1) [OF ey] have le: "ex \<le> ey" by (rule f32_quantum_le)
  show ?thesis
  proof (cases "ex = ey")
    case True
    have "x / 2 powi ey \<le> y / 2 powi ey"
      using assms(2) by (simp add: divide_right_mono)
    then have "round_half_even (x / 2 powi ey) \<le> round_half_even (y / 2 powi ey)"
      by (rule round_half_even_mono)
    then show ?thesis unfolding a b True by (simp add: mult_right_mono)
  next
    case False
    with le have lt: "ex + 24 \<le> ey + 23" and "ey \<noteq> -149"
      using f32_quantumD(1) [OF ex] by simp_all
    with f32_quantumD(4) [OF ey] absy have ylo: "2 powi (ey + 23) \<le> y" by simp
    have "\<bar>x / 2 powi ex\<bar> \<le> of_int (2 ^ 24)"
      using scaled_bound [OF f32_quantumD(3) [OF ex]] by simp
    then have "\<bar>round_half_even (x / 2 powi ex)\<bar> \<le> 2 ^ 24"
      by (rule round_half_even_abs_le)
    then have "round_half_even (x / 2 powi ex) \<le> 2 ^ 24" by simp
    then have "(of_int (round_half_even (x / 2 powi ex)) :: rat) \<le> 2 ^ 24"
      by (metis of_int_le_iff of_int_numeral of_int_power)
    then have "a \<le> 2 ^ 24 * 2 powi ex"
      unfolding a by (simp add: mult_right_mono)
    also have "\<dots> = 2 powi (ex + 24)" by (simp add: pow2_add)
    also have "\<dots> \<le> 2 powi (ey + 23)" using lt by (rule pow2_mono)
    finally have a_le: "a \<le> 2 powi (ey + 23)" .
    have "(2::rat) powi (ey + 23) = 2 ^ 23 * 2 powi ey" by (simp add: pow2_add)
    with ylo have "2 ^ 23 * 2 powi ey \<le> y" by simp
    then have "of_int (2 ^ 23) \<le> y / 2 powi ey"
      by (simp add: pos_le_divide_eq)
    from round_half_even_mono [OF this]
    have "2 ^ 23 \<le> round_half_even (y / 2 powi ey)"
      by (simp only: round_half_even_of_int)
    then have "(2 ^ 23 :: rat) \<le> of_int (round_half_even (y / 2 powi ey))"
      by (metis of_int_le_iff of_int_numeral of_int_power)
    then have "2 ^ 23 * 2 powi ey \<le> b"
      unfolding b by (simp add: mult_right_mono)
    then have "2 powi (ey + 23) \<le> b" by (simp add: pow2_add)
    with a_le show ?thesis by linarith
  qed
qed

section \<open>Properties of the knock percentage\<close>

lemma f32_of_int_small: "\<bar>k\<bar> < 2 ^ 24 \<Longrightarrow> f32_of_int k = Some (of_int k)"
  unfolding f32_of_int_def by (rule f32_round_of_int)

lemma f32_of_int_adc: "f32_of_int (uint (adc :: 16 word)) = Some (of_int (uint adc))"
  using uint_adc_bound [of adc] by (intro f32_of_int_small) simp

lemma knock_percentage_unfold:
  "knock_percentage adc =
     Option.bind (f32_round (of_int (uint adc) / 1023)) (\<lambda>q. f32_round (q * 100))"
proof -
  have "f32_of_int 1023 = Some 1023" "f32_of_int 100 = Some 100"
    using f32_of_int_small [of 1023] f32_of_int_small [of 100] by simp_all
  then show ?thesis
    by (simp add: knock_percentage_def f32_of_int_adc f32_div_def f32_mul_def)
qed

lemma quotient_total:
  assumes "0 \<le> r" "r < 65536"
  shows "\<exists>q. f32_round (of_int r / 1023) = Some q \<and> 0 \<le> q \<and> q \<le> 128"
proof -
  let ?x = "of_int r / 1023 :: rat"
  have nn: "0 \<le> ?x" using assms(1) by simp
  have "(of_int r :: rat) < 65536"
    using assms(2) by (metis of_int_less_iff of_int_numeral)
  then have "?x < 128" by simp
  with nn have "\<bar>?x\<bar> < 2 powi (-17 + 24)" by simp
  from f32_round_bounded [OF _ _ this]
  obtain q where q: "f32_round ?x = Some q" "\<bar>q\<bar> \<le> 2 powi (-17 + 24)" by auto
  have "f32_round 0 = Some 0" using f32_round_of_int [of 0] by simp
  from f32_round_mono [OF _ nn this q(1)] have "0 \<le> q" by simp
  with q show ?thesis by auto
qed

lemma product_total:
  assumes "0 \<le> q" "q \<le> 128"
  shows "\<exists>p. f32_round (q * 100) = Some p \<and> 0 \<le> p"
proof -
  have nn: "0 \<le> q * 100" using assms by simp
  have "q * 100 < 2 powi (-10 + 24)" using assms by simp
  with nn have "\<bar>q * 100\<bar> < 2 powi (-10 + 24)" by simp
  from f32_round_bounded [OF _ _ this]
  obtain p where p: "f32_round (q * 100) = Some p" by auto
  have "f32_round 0 = Some 0" using f32_round_of_int [of 0] by simp
  from f32_round_mono [OF _ nn this p] have "0 \<le> p" by simp
  with p show ?thesis by auto
qed

lemma knock_percentage_total: "\<exists>p. knock_percentage adc = Some p \<and> 0 \<le> p"
proof -
  define r where "r = uint adc"
  have r: "0 \<le> r" "r < 65536" using uint_adc_bound [of adc] by (simp_all add: r_def)
  have unf: "knock_percentage adc =
      Option.bind (f32_round (of_int r / 1023)) (\<lambda>q. f32_round (q * 100))"
    unfolding r_def by (rule knock_percentage_unfold)
  from quotient_total [OF r] obtain q
    where q: "f32_round (of_int r / 1023) = Some q" "0 \<le> q" "q \<le> 128" by blast
  from product_total [OF q(2,3)] obtain p where "f32_round (q * 100) = Some p" "0 \<le> p"
    by blast
  with q(1) show ?thesis by (simp add: unf)
qed

lemma knock_percentage_mono:
  assumes "adc \<le> adc'" "knock_percentage adc = Some p" "knock_percentage adc' = Some p'"
  shows "p \<le> p'"
proof -
  define r r' where "r = uint adc" and "r' = uint adc'"
  have r: "0 \<le> r" "r < 65536" "r \<le> r'"
    using uint_adc_bound [of adc] assms(1) by (simp_all add: r_def r'_def word_le_def)
  have unf: "knock_percentage adc =
      Option.bind (f32_round (of_int r / 1023)) (\<lambda>q. f32_round (q * 100))"
    "knock_percentage adc' =
      Option.bind (f32_round (of_int r' / 1023)) (\<lambda>q. f32_round (q * 100))"
    unfolding r_def r'_def by (rule knock_percentage_unfold)+
  from assms(2) obtain q where q: "f32_round (of_int r / 1023) = Some q"
    "f32_round (q * 100) = Some p"
    by (auto simp: unf split: Option.bind_splits)
  from assms(3) obtain q' where q': "f32_round (of_int r' / 1023) = Some q'"
    "f32_round (q' * 100) = Some p'"
    by (auto simp: unf split: Option.bind_splits)
  from quotient_total [OF r(1,2)] q(1) have q0: "0 \<le> q" by simp
  have "(of_int r / 1023 :: rat) \<le> of_int r' / 1023"
    using r(3) by (simp add: divide_right_mono)
  from f32_round_mono [OF _ this q(1) q'(1)] r(1) have "q \<le> q'" by simp
  then have "q * 100 \<le> q' * 100" by simp
  from f32_round_mono [OF _ this q(2) q'(2)] q0 show ?thesis by simp
qed

lemma knock_percentage_0: "knock_percentage 0 = Some 0"
  using f32_round_of_int [of 0] by (simp add: knock_percentage_unfold)

lemma knock_percentage_1023: "knock_percentage 1023 = Some 100"
  using f32_round_of_int [of 1] f32_round_of_int [of 100] by (simp add: knock_percentage_unfold)

lemma round_half_even_eqI:
  assumes "of_int m - 1 / 2 < q" "q < of_int m + 1 / 2"
  shows "round_half_even q = m"
proof -
  have "\<lfloor>q\<rfloor> = m \<or> \<lfloor>q\<rfloor> = m - 1" using assms by linarith
  then show ?thesis
  proof
    assume "\<lfloor>q\<rfloor> = m"
    with assms show ?thesis by (simp add: round_half_even_def)
  next
    assume "\<lfloor>q\<rfloor> = m - 1"
    with assms show ?thesis by (simp add: round_half_even_def)
  qed
qed

lemma quot_818: "f32_round (818 / 1023) = Some (13415213 / 16777216)"
  by (rule f32_roundI [where e = "-24" and m = 13415213])
    (simp_all add: round_half_even_eqI)

lemma prod_818: "f32_round (13415213 / 16777216 * 100) = Some (10480635 / 131072)"
  by (rule f32_roundI [where e = "-17" and m = 10480635])
    (simp_all add: round_half_even_eqI)

lemma knock_percentage_818: "knock_percentage 818 = Some (10480635 / 131072)"
  using quot_818 prod_818 by (simp add: knock_percentage_unfold)

section \<open>Effects of the operations\<close>

lemma trace_emit: "trace (emit e s) = trace s @ [e]"
  by (simp add: emit_def)

lemma byte_via_u16: "(ucast (ucast (rx :: byte) :: 16 word) :: byte) = rx"
  by (rule bit_word_eqI) (auto simp: bit_simps)

lemma COM_SPI_2ch_eq:
  "COM_SPI_2ch tx rx s =
     (rx, s\<lparr>pins := (pins s)(SPU_NSS_PIN := HIGH),
           trace := trace s @ [SpiSetDataMode SPI_MODE1, SpiSetClockDivider SPI_CLOCK_DIV16,
             DigitalWrite SPU_NSS_PIN LOW, SpiTransfer tx rx, DigitalWrite SPU_NSS_PIN HIGH]\<rparr>)"
  by (simp add: COM_SPI_2ch_def digitalWrite_def emit_def Let_def byte_via_u16)

lemma COM_SPI_1ch_eq:
  "COM_SPI_1ch tx rx s =
     (rx, s\<lparr>pins := (pins s)(SPU_NSS_PIN := HIGH),
           trace := trace s @ [DigitalWrite SPU_NSS_PIN LOW, SpiTransfer tx rx,
             DigitalWrite SPU_NSS_PIN HIGH, SerialPrint [Str ''SPU_SPI: 0x''],
             SerialPrint [Hex rx], SerialPrint [Str nl_cr]]\<rparr>)"
  by (simp add: COM_SPI_1ch_def digitalWrite_def emit_def Let_def)

lemma logData_eq: "logData t ok s = s\<lparr>trace := trace s @ log_events t ok\<rparr>"
  by (simp add: logData_def emit_def Let_def log_events_def)


lemma emit_simps:
  "trace (emit e s) = trace s @ [e]" "pins (emit e s) = pins s"
  by (simp_all add: emit_def)

lemma emit_logEnabled: "logEnabled (emit e s) = logEnabled s"
  by (simp add: emit_def)

lemma digitalWrite_simps:
  "trace (digitalWrite p v s) = trace s @ [DigitalWrite p v]"
  "pins (digitalWrite p v s) = (pins s)(p := v)"
  by (simp_all add: digitalWrite_def emit_def)

lemma digitalWrite_logEnabled: "logEnabled (digitalWrite p v s) = logEnabled s"
  by (simp add: digitalWrite_def emit_def)

lemma digitalWrite_if:
  "(if b then digitalWrite p v s else digitalWrite p w s) = digitalWrite p (if b then v else w) s"
  by simp

lemma COM_SPI_2ch_simps:
  "fst (COM_SPI_2ch tx rx s) = rx"
  "trace (snd (COM_SPI_2ch tx rx s)) = trace s @ [SpiSetDataMode SPI_MODE1,
     SpiSetClockDivider SPI_CLOCK_DIV16, DigitalWrite SPU_NSS_PIN LOW, SpiTransfer tx rx,
     DigitalWrite SPU_NSS_PIN HIGH]"
  "pins (snd (COM_SPI_2ch tx rx s)) = (pins s)(SPU_NSS_PIN := HIGH)"
  by (simp_all add: COM_SPI_2ch_eq)

lemma COM_SPI_2ch_logEnabled: "logEnabled (snd (COM_SPI_2ch tx rx s)) = logEnabled s"
  by (simp add: COM_SPI_2ch_eq)

lemma logData_simps:
  "trace (logData t ok s) = trace s @ log_events t ok" "pins (logData t ok s) = pins s"
  by (simp_all add: logData_eq)

lemma logData_logEnabled: "logEnabled (logData t ok s) = logEnabled s"
  by (simp add: logData_eq)

lemma logData_if:
  "trace (if b then logData t ok s else s) = trace s @ (if b then log_events t ok else [])"
  "pins (if b then logData t ok s else s) = pins s"
  "logEnabled (if b then logData t ok s else s) = logEnabled s"
  by (simp_all add: logData_eq)

lemmas step_simps = emit_simps emit_logEnabled digitalWrite_simps digitalWrite_logEnabled
  digitalWrite_if COM_SPI_2ch_simps COM_SPI_2ch_logEnabled logData_if

lemma loop_cycle_2ch_eq:
  assumes "knock_percentage (adc1 c) = Some p1" "knock_percentage (adc2 c) = Some p2"
  shows "\<exists>s'. loop_cycle_2ch c s = Some s' \<and> logEnabled s' = logEnabled s \<and>
     pins s' SPU_NSS_PIN = HIGH \<and> pins s' SPU_HOLD_PIN = LOW \<and>
     pins s' LED_LIMIT =
       (if KNOCK_THRESHOLD_LEVEL \<le> analogOutput (max (adc1 c) (adc2 c)) then HIGH else LOW) \<and>
     trace s' = trace s @ cycle_events_2ch c p1 p2 (logEnabled s)"
proof -
  have mx: "(if adc1 c < adc2 c then adc2 c else adc1 c) = max (adc1 c) (adc2 c)"
    by (auto simp: max_def)
  show ?thesis
    unfolding loop_cycle_2ch_def cycle_events_2ch_def txString_2ch_def
    by (simp add: assms Let_def step_simps mx hw_defs split del: if_split)
qed

lemma added_append: "trace s' = trace s @ evs \<Longrightarrow> added s s' = evs"
  by (simp add: added_def)

lemma f32_of_int_80: "f32_of_int 80 = Some 80"
  using f32_of_int_small [of 80] by simp

lemma loop_cycle_1ch_eq:
  assumes "knock_percentage adc = Some p"
  shows "\<exists>s'. loop_cycle_1ch adc s = Some s' \<and>
     pins s' SPU_NSS_PIN = pins s SPU_NSS_PIN \<and> pins s' SPU_HOLD_PIN = LOW \<and>
     pins s' LED_LIMIT = (if 80 \<le> p then HIGH else LOW) \<and>
     trace s' = trace s @ cycle_events_1ch adc p"
  unfolding loop_cycle_1ch_def cycle_events_1ch_def
  by (simp add: assms f32_of_int_80 Let_def step_simps hw_defs split del: if_split)

lemma loop_cycle_1ch_total: "\<exists>s'. loop_cycle_1ch adc s = Some s'"
  using knock_percentage_total [of adc] loop_cycle_1ch_eq [of adc _ s] by blast

lemma loop_cycle_1ch_analog:
  "\<exists>s'. loop_cycle_1ch adc s = Some s' \<and> analog_writes (added s s') = [analogOutput adc]"
proof -
  from knock_percentage_total [of adc] obtain p where "knock_percentage adc = Some p" by blast
  from loop_cycle_1ch_eq [OF this, of s] obtain s' where s': "loop_cycle_1ch adc s = Some s'"
    and tr: "trace s' = trace s @ cycle_events_1ch adc p"
    by blast
  have "analog_writes (added s s') = [analogOutput adc]"
    unfolding added_append [OF tr] by (simp add: analog_writes_def cycle_events_1ch_def)
  with s' show ?thesis by blast
qed

text \<open>
  C4. For every raw ADC value \<open>r\<close> in 0..1023 the analog output is the integer
  truncation of \<open>r * 255 / 1023\<close>, which is the floor of \<open>r / 1023 * 255\<close>; it lies in
  0..255 and does not decrease when \<open>r\<close> grows. It is the value the loop hands to
  \<^verbatim>\<open>analogWrite\<close>.
\<close>

theorem analog_output_rescale:
  assumes "adc \<le> 1023"
  shows "uint (analogOutput adc) = uint adc * 255 div 1023
    \<and> uint (analogOutput adc) = \<lfloor>(of_int (uint adc) :: rat) / 1023 * 255\<rfloor>
    \<and> 0 \<le> uint (analogOutput adc) \<and> uint (analogOutput adc) \<le> 255
    \<and> (\<forall>adc'. adc \<le> adc' \<and> adc' \<le> 1023 \<longrightarrow> analogOutput adc \<le> analogOutput adc')
    \<and> (\<forall>s :: board. \<exists>s'. loop_cycle_1ch adc s = Some s'
          \<and> analog_writes (added s s') = [analogOutput adc])"
proof -
  have v: "uint (analogOutput adc) = uint adc * 255 div 1023"
    using assms by (rule uint_analogOutput_in_range)
  have fl: "uint (analogOutput adc) = \<lfloor>(of_int (uint adc) :: rat) / 1023 * 255\<rfloor>"
    unfolding v by (rule rescale_floor [symmetric])
  have hi: "uint (analogOutput adc) \<le> 255"
    unfolding v using assms by (rule rescale_in_range)
  have mono: "\<forall>adc'. adc \<le> adc' \<and> adc' \<le> 1023 \<longrightarrow> analogOutput adc \<le> analogOutput adc'"
    using analogOutput_mono by blast
  have prog: "\<forall>s :: board. \<exists>s'. loop_cycle_1ch adc s = Some s'
      \<and> analog_writes (added s s') = [analogOutput adc]"
    using loop_cycle_1ch_analog by blast
  have lo: "0 \<le> uint (analogOutput adc)" by simp
  from v fl lo hi mono prog show ?thesis by (simp only: simp_thms)
qed

theorem analog_output_rescale_witness:
  "(818 :: 16 word) \<le> 1023 \<and> uint (analogOutput 818) = 203"
  using analog_output_rescale [of 818] by simp

text \<open>
  C10. For every raw ADC value in 0..1023 the product \<open>raw * 255\<close> formed inside
  \<^verbatim>\<open>map\<close> is the exact integer product (no wrap-around of the 32-bit long), the value
  \<^verbatim>\<open>map\<close> returns lies in 0..255, and cutting it to the 8-bit \<^verbatim>\<open>analogOutput\<close>
  keeps its value.
\<close>

theorem rescale_no_overflow:
  assumes "adc \<le> 1023"
  shows "sint ((ucast adc - 0) * (255 - 0) :: long) = uint adc * 255
    \<and> uint adc * 255 < 2 ^ 31
    \<and> sint (map_long (ucast adc) 0 1023 0 255) = uint adc * 255 div 1023
    \<and> 0 \<le> sint (map_long (ucast adc) 0 1023 0 255)
    \<and> sint (map_long (ucast adc) 0 1023 0 255) \<le> 255
    \<and> uint (analogOutput adc) = sint (map_long (ucast adc) 0 1023 0 255)"
proof -
  have p: "sint ((ucast adc - 0) * (255 - 0) :: long) = uint adc * 255"
    by (simp only: diff_zero sint_adc_times)
  have b: "uint adc * 255 < 2 ^ 31"
    using uint_adc_bound [of adc] by simp
  note m = map_long_adc [of adc]
  have lo: "0 \<le> sint (map_long (ucast adc) 0 1023 0 255)"
    unfolding m by (rule rescale_bounds)
  have hi: "sint (map_long (ucast adc) 0 1023 0 255) \<le> 255"
    unfolding m using assms by (rule rescale_in_range)
  have st: "uint (analogOutput adc) = sint (map_long (ucast adc) 0 1023 0 255)"
    unfolding m using assms by (rule uint_analogOutput_in_range)
  from p b m lo hi st show ?thesis by (simp only: simp_thms)
qed

theorem rescale_no_overflow_witness:
  "(1023 :: 16 word) \<le> 1023 \<and> sint (map_long (ucast (1023 :: 16 word)) 0 1023 0 255) = 255
     \<and> uint (analogOutput 1023) = 255"
  using rescale_no_overflow [of 1023] by simp

lemma quot_819: "f32_round (819 / 1023) = Some (13431613 / 16777216)"
  by (rule f32_roundI [where e = "-24" and m = 13431613])
    (simp_all add: round_half_even_eqI)

lemma prod_819: "f32_round (13431613 / 16777216 * 100) = Some (1311681 / 16384)"
  by (rule f32_roundI [where e = "-17" and m = 10493448])
    (simp_all add: round_half_even_eqI)

lemma knock_percentage_819: "knock_percentage 819 = Some (1311681 / 16384)"
  using quot_819 prod_819 by (simp add: knock_percentage_unfold)

lemma adc_cases_818: "(adc :: 16 word) \<le> 818 \<or> 819 \<le> adc"
proof -
  have "uint adc \<le> 818 \<or> 819 \<le> uint adc" by linarith
  then show ?thesis by (simp add: word_le_def)
qed

lemma knock_percentage_threshold:
  assumes "knock_percentage adc = Some p"
  shows "80 \<le> p \<longleftrightarrow> 819 \<le> adc"
proof (cases "819 \<le> adc")
  case True
  from knock_percentage_mono [OF True knock_percentage_819 assms] have "1311681 / 16384 \<le> p" .
  then have "80 \<le> p" by simp
  with True show ?thesis by simp
next
  case False
  with adc_cases_818 [of adc] have le: "adc \<le> 818" by blast
  from knock_percentage_mono [OF le assms knock_percentage_818] have "p \<le> 10480635 / 131072" .
  then have "p < 80" by simp
  with False show ?thesis by simp
qed

lemma le_div_1023: "a \<le> k div 1023 \<longleftrightarrow> a * 1023 \<le> (k :: int)"
proof
  assume "a \<le> k div 1023"
  moreover have "k = 1023 * (k div 1023) + k mod 1023" by simp
  moreover have "0 \<le> k mod 1023" by simp
  ultimately show "a * 1023 \<le> k" by linarith
next
  assume "a * 1023 \<le> k"
  then have "a * 1023 div 1023 \<le> k div 1023" by (rule zdiv_mono1) simp
  then show "a \<le> k div 1023" by simp
qed

lemma analogOutput_threshold:
  assumes "adc \<le> 1023"
  shows "KNOCK_THRESHOLD_LEVEL \<le> analogOutput adc \<longleftrightarrow> 819 \<le> adc"
proof -
  have "KNOCK_THRESHOLD_LEVEL \<le> analogOutput adc \<longleftrightarrow> 204 \<le> uint (analogOutput adc)"
    by (simp add: KNOCK_THRESHOLD_LEVEL_def word_le_def)
  also have "\<dots> \<longleftrightarrow> 204 \<le> uint adc * 255 div 1023"
    by (simp only: uint_analogOutput_in_range [OF assms])
  also have "\<dots> \<longleftrightarrow> 204 * 1023 \<le> uint adc * 255"
    by (rule le_div_1023)
  also have "\<dots> \<longleftrightarrow> 819 \<le> uint adc"
    by linarith
  also have "\<dots> \<longleftrightarrow> 819 \<le> adc"
    by (simp add: word_le_def)
  finally show ?thesis .
qed

lemma f32_round_0: "f32_round 0 = Some 0"
  using f32_round_of_int [of 0] by simp

lemma f32_round_1: "f32_round 1 = Some 1"
  using f32_round_of_int [of 1] by simp

lemma f32_round_100: "f32_round 100 = Some 100"
  using f32_round_of_int [of 100] by simp

lemma percentage_in_range:
  assumes r: "0 \<le> r" "r \<le> 1023"
    and q: "f32_round (of_int r / 1023) = Some q" and p: "f32_round (q * 100) = Some p"
  shows "0 \<le> q" "q \<le> 1" "0 \<le> p" "p \<le> 100" "\<bar>p - of_int r / 1023 * 100\<bar> \<le> 1 / 2 ^ 16"
proof -
  let ?x = "of_int r / 1023 :: rat"
  have x0: "0 \<le> ?x" using r(1) by simp
  have "(of_int r :: rat) \<le> 1023" using r(2) by (metis of_int_le_iff of_int_numeral)
  then have x1: "?x \<le> 1" by simp
  from f32_round_mono [OF _ x0 f32_round_0 q] show q0: "0 \<le> q" by simp
  from f32_round_mono [OF x0 x1 q f32_round_1] show q1: "q \<le> 1" .
  have y0: "0 \<le> q * 100" using q0 by simp
  have y1: "q * 100 \<le> 100" using q1 by simp
  from f32_round_mono [OF _ y0 f32_round_0 p] show "0 \<le> p" by simp
  from f32_round_mono [OF y0 y1 p f32_round_100] show "p \<le> 100" .
  have "\<bar>?x\<bar> < 2 powi (-23 + 24)" using x0 x1 by simp
  from f32_round_bounded [OF _ _ this] q have eq: "\<bar>q - ?x\<bar> \<le> 2 powi (-23 - 1)" by auto
  have "\<bar>q * 100\<bar> < 2 powi (-17 + 24)" using y0 y1 by simp
  from f32_round_bounded [OF _ _ this] p have ep: "\<bar>p - q * 100\<bar> \<le> 2 powi (-17 - 1)" by auto
  have "p - ?x * 100 = (p - q * 100) + (q - ?x) * 100" by (simp add: algebra_simps)
  then have "\<bar>p - ?x * 100\<bar> \<le> \<bar>p - q * 100\<bar> + \<bar>(q - ?x) * 100\<bar>"
    by (simp only: abs_triangle_ineq)
  also have "\<bar>(q - ?x) * 100\<bar> = \<bar>q - ?x\<bar> * 100" by (simp only: abs_mult abs_numeral)
  finally have "\<bar>p - ?x * 100\<bar> \<le> \<bar>p - q * 100\<bar> + \<bar>q - ?x\<bar> * 100" .
  also have "\<dots> \<le> 2 powi (-18) + 2 powi (-24) * 100" using eq ep by simp
  also have "\<dots> \<le> 1 / 2 ^ 16" by (simp add: power_int_minus_divide)
  finally show "\<bar>p - ?x * 100\<bar> \<le> 1 / 2 ^ 16" .
qed

lemma knock_percentage_in_range:
  assumes "adc \<le> 1023" "knock_percentage adc = Some p"
  shows "0 \<le> p" "p \<le> 100" "\<bar>p - of_int (uint adc) / 1023 * 100\<bar> \<le> 1 / 2 ^ 16"
proof -
  define r where "r = uint adc"
  have r: "0 \<le> r" "r \<le> 1023" using assms(1) by (simp_all add: r_def word_le_def)
  have unf: "knock_percentage adc =
      Option.bind (f32_round (of_int r / 1023)) (\<lambda>q. f32_round (q * 100))"
    unfolding r_def by (rule knock_percentage_unfold)
  from assms(2) obtain q where q: "f32_round (of_int r / 1023) = Some q"
    "f32_round (q * 100) = Some p"
    by (auto simp: unf split: Option.bind_splits)
  from percentage_in_range [OF r q]
  show "0 \<le> p" "p \<le> 100" "\<bar>p - of_int (uint adc) / 1023 * 100\<bar> \<le> 1 / 2 ^ 16"
    unfolding r_def by blast+
qed

lemma knock_percentage_spec: "knock_percentage adc = raw_to_percentage (unat adc)"
proof -
  have "(of_nat (unat adc) :: rat) = of_int (uint adc)" by simp
  then show ?thesis
    unfolding knock_percentage_unfold raw_to_percentage_def by (simp only:)
qed

lemma knock_percentage_zero_iff:
  assumes "adc \<le> 1023" "knock_percentage adc = Some p"
  shows "p = 0 \<longleftrightarrow> adc = 0"
proof
  assume "adc = 0"
  with assms(2) knock_percentage_0 show "p = 0" by simp
next
  assume p0: "p = 0"
  show "adc = 0"
  proof (rule ccontr)
    assume "adc \<noteq> 0"
    then have "uint adc \<noteq> 0" by (simp add: uint_0_iff)
    then have "1 \<le> uint adc" using uint_ge_0 [of adc] by linarith
    then have "(1 :: rat) \<le> of_int (uint adc)" by (metis of_int_1 of_int_le_iff)
    then have "(100 / 1023 :: rat) \<le> of_int (uint adc) / 1023 * 100" by simp
    with knock_percentage_in_range(3) [OF assms] p0 show False by simp
  qed
qed

lemma knock_percentage_full_iff:
  assumes "adc \<le> 1023" "knock_percentage adc = Some p"
  shows "p = 100 \<longleftrightarrow> adc = 1023"
proof
  assume "adc = 1023"
  with assms(2) knock_percentage_1023 show "p = 100" by simp
next
  assume p: "p = 100"
  show "adc = 1023"
  proof (rule ccontr)
    assume "adc \<noteq> 1023"
    then have "uint adc \<noteq> 1023" by (simp add: word_uint_eq_iff)
    moreover have "uint adc \<le> 1023" using assms(1) by (simp add: word_le_def)
    ultimately have "uint adc \<le> 1022" by linarith
    then have "(of_int (uint adc) :: rat) \<le> 1022" by (metis of_int_le_iff of_int_numeral)
    then have "of_int (uint adc) / 1023 * 100 \<le> (102200 / 1023 :: rat)" by simp
    with knock_percentage_in_range(3) [OF assms] p show False by simp
  qed
qed

lemma loop_cycle_1ch_pass:
  "\<exists>s' p. loop_cycle_1ch adc s = Some s' \<and> knock_percentage adc = Some p \<and>
     pins s' SPU_NSS_PIN = pins s SPU_NSS_PIN \<and>
     pins s' LED_LIMIT = (if 80 \<le> p then HIGH else LOW) \<and>
     trace s' = trace s @ cycle_events_1ch adc p \<and>
     added s s' = cycle_events_1ch adc p"
proof -
  from knock_percentage_total [of adc] obtain p where p: "knock_percentage adc = Some p"
    by blast
  from loop_cycle_1ch_eq [OF p, of s] p show ?thesis
    by (auto simp: added_append)
qed

lemma loop_cycle_2ch_pass:
  "\<exists>s' p1 p2. loop_cycle_2ch c s = Some s' \<and> knock_percentage (adc1 c) = Some p1 \<and>
     knock_percentage (adc2 c) = Some p2 \<and> logEnabled s' = logEnabled s \<and>
     pins s' SPU_NSS_PIN = HIGH \<and>
     pins s' LED_LIMIT =
       (if KNOCK_THRESHOLD_LEVEL \<le> analogOutput (max (adc1 c) (adc2 c)) then HIGH else LOW) \<and>
     trace s' = trace s @ cycle_events_2ch c p1 p2 (logEnabled s) \<and>
     added s s' = cycle_events_2ch c p1 p2 (logEnabled s)"
proof -
  from knock_percentage_total [of "adc1 c"] obtain p1
    where p1: "knock_percentage (adc1 c) = Some p1" by blast
  from knock_percentage_total [of "adc2 c"] obtain p2
    where p2: "knock_percentage (adc2 c) = Some p2" by blast
  from loop_cycle_2ch_eq [OF p1 p2, of s] p1 p2 show ?thesis
    by (auto simp: added_append)
qed

lemma spi_bytes_simps:
  "spi_bytes [] = []" "spi_bytes (e # es) = spi_byte e @ spi_bytes es"
  "spi_bytes (xs @ ys) = spi_bytes xs @ spi_bytes ys"
  by (simp_all add: spi_bytes_def)

lemma analog_writes_simps:
  "analog_writes [] = []" "analog_writes (e # es) = analog_write e @ analog_writes es"
  "analog_writes (xs @ ys) = analog_writes xs @ analog_writes ys"
  by (simp_all add: analog_writes_def)

lemma storage_probes_simps:
  "storage_probes [] = []" "storage_probes (e # es) = storage_probe e @ storage_probes es"
  "storage_probes (xs @ ys) = storage_probes xs @ storage_probes ys"
  by (simp_all add: storage_probes_def)

lemma file_lines_simps:
  "file_lines [] = []" "file_lines (e # es) = file_line e @ file_lines es"
  "file_lines (xs @ ys) = file_lines xs @ file_lines ys"
  by (simp_all add: file_lines_def)

lemma serial_lines_simps:
  "serial_lines [] = []" "serial_lines (e # es) = serial_line e @ serial_lines es"
  "serial_lines (xs @ ys) = serial_lines xs @ serial_lines ys"
  by (simp_all add: serial_lines_def)

lemma percentages_printed_simps:
  "percentages_printed [] = []"
  "percentages_printed (e # es) = serial_floats e @ percentages_printed es"
  "percentages_printed (xs @ ys) = percentages_printed xs @ percentages_printed ys"
  by (simp_all add: percentages_printed_def)

lemma passes_simps:
  "passes [] = 0" "passes (e # es) = (if e = Delay 400 then 1 else 0) + passes es"
  "passes (xs @ ys) = passes xs + passes ys"
  by (simp_all add: passes_def)

lemmas obs_simps = spi_bytes_simps analog_writes_simps storage_probes_simps file_lines_simps
  serial_lines_simps percentages_printed_simps passes_simps

lemma printed_1ch: "percentages_printed (cycle_events_1ch adc p) = [p]"
  by (simp add: obs_simps cycle_events_1ch_def)

lemma printed_2ch: "percentages_printed (cycle_events_2ch c p1 p2 en) = [p1, p2]"
  by (simp add: obs_simps cycle_events_2ch_def txString_2ch_def log_events_def)

lemma analog_writes_1ch: "analog_writes (cycle_events_1ch adc p) = [analogOutput adc]"
  by (simp add: obs_simps cycle_events_1ch_def)

lemma analog_writes_2ch:
  "analog_writes (cycle_events_2ch c p1 p2 en) = [analogOutput (max (adc1 c) (adc2 c))]"
  by (simp add: obs_simps cycle_events_2ch_def log_events_def)

text \<open>
  C5. For every raw ADC value \<open>r\<close> in 0..1023 the knock percentage the program computes
  is \<open>r / 1023 * 100\<close> evaluated in single precision, as the specification's
  \<open>raw_to_percentage\<close> words it; it is within \<open>2 ^ -16\<close> of the exact quotient, lies
  in 0..100, is 0 exactly at \<open>r = 0\<close> and 100 exactly at \<open>r = 1023\<close>, and does not
  decrease when \<open>r\<close> grows. It is the percentage both loops print.
\<close>

theorem knock_percentage_range:
  assumes "adc \<le> 1023"
  shows "\<exists>p. knock_percentage adc = Some p
    \<and> raw_to_percentage (unat adc) = Some p
    \<and> \<bar>p - of_int (uint adc) / 1023 * 100\<bar> \<le> 1 / 2 ^ 16
    \<and> 0 \<le> p \<and> p \<le> 100 \<and> (p = 0 \<longleftrightarrow> adc = 0) \<and> (p = 100 \<longleftrightarrow> adc = 1023)
    \<and> (\<forall>adc' p'. adc \<le> adc' \<and> knock_percentage adc' = Some p' \<longrightarrow> p \<le> p')
    \<and> (\<forall>s :: board. \<exists>s'. loop_cycle_1ch adc s = Some s'
          \<and> percentages_printed (added s s') = [p])
    \<and> (\<forall>c s. adc1 c = adc \<longrightarrow> (\<exists>s' p2. loop_cycle_2ch c s = Some s'
          \<and> knock_percentage (adc2 c) = Some p2
          \<and> percentages_printed (added s s') = [p, p2]))"
proof -
  from knock_percentage_total [of adc] obtain p where p: "knock_percentage adc = Some p"
    by blast
  have spec: "raw_to_percentage (unat adc) = Some p"
    using p by (simp only: knock_percentage_spec [symmetric])
  note rng = knock_percentage_in_range [OF assms p]
  note z = knock_percentage_zero_iff [OF assms p]
  note f = knock_percentage_full_iff [OF assms p]
  have mono: "\<forall>adc' p'. adc \<le> adc' \<and> knock_percentage adc' = Some p' \<longrightarrow> p \<le> p'"
    using knock_percentage_mono [OF _ p] by blast
  have one: "\<forall>s :: board. \<exists>s'. loop_cycle_1ch adc s = Some s'
      \<and> percentages_printed (added s s') = [p]"
  proof
    fix s :: board
    from loop_cycle_1ch_pass [of adc s] p
    show "\<exists>s'. loop_cycle_1ch adc s = Some s' \<and> percentages_printed (added s s') = [p]"
      by (auto simp: printed_1ch)
  qed
  have two: "\<forall>c s. adc1 c = adc \<longrightarrow> (\<exists>s' p2. loop_cycle_2ch c s = Some s'
      \<and> knock_percentage (adc2 c) = Some p2 \<and> percentages_printed (added s s') = [p, p2])"
  proof (intro allI impI)
    fix c :: cycle and s :: logger_board
    assume c: "adc1 c = adc"
    from loop_cycle_2ch_pass [of c s] p c
    show "\<exists>s' p2. loop_cycle_2ch c s = Some s'
      \<and> knock_percentage (adc2 c) = Some p2 \<and> percentages_printed (added s s') = [p, p2]"
      by (auto simp: printed_2ch)
  qed
  from p spec rng z f mono one two show ?thesis by blast
qed

theorem knock_percentage_range_witness:
  "(1023 :: 16 word) \<le> 1023 \<and> knock_percentage 1023 = Some 100
     \<and> raw_to_percentage 1023 = Some 100"
  using knock_percentage_range [of 1023] by auto

lemma max_in_range: "(a :: 16 word) \<le> 1023 \<Longrightarrow> b \<le> 1023 \<Longrightarrow> max a b \<le> 1023"
  by (simp add: max_def)

lemma analogOutput_max:
  assumes "a \<le> 1023" "b \<le> 1023"
  shows "analogOutput (max a b) = max (analogOutput a) (analogOutput b)"
proof (cases "a \<le> b")
  case True
  from analogOutput_mono [OF True assms(2)] True show ?thesis by (simp add: max_def)
next
  case False
  then have "b \<le> a" by simp
  from analogOutput_mono [OF this assms(1)] False show ?thesis by (simp add: max_def)
qed

lemma level_if_HIGH: "((if b then HIGH else LOW) = HIGH) \<longleftrightarrow> b"
  by simp

text \<open>
  C2. In the dual-channel loop, for raw values \<open>raw1\<close> and \<open>raw2\<close> in 0..1023 (ties
  included), the one value written to the analog output is
  \<open>analogOutput (max raw1 raw2)\<close>; the limit LED is decided on that same value; and it
  equals the larger of the two channels' own outputs.
\<close>

theorem dual_combined_output:
  assumes "adc1 c \<le> 1023" "adc2 c \<le> 1023"
  shows "\<exists>s'. loop_cycle_2ch c s = Some s'
    \<and> analog_writes (added s s') = [analogOutput (max (adc1 c) (adc2 c))]
    \<and> (pins s' LED_LIMIT = HIGH
          \<longleftrightarrow> KNOCK_THRESHOLD_LEVEL \<le> analogOutput (max (adc1 c) (adc2 c)))
    \<and> analogOutput (max (adc1 c) (adc2 c)) = max (analogOutput (adc1 c)) (analogOutput (adc2 c))"
proof -
  from loop_cycle_2ch_pass [of c s] obtain s' p1 p2
    where s': "loop_cycle_2ch c s = Some s'"
      and led: "pins s' LED_LIMIT =
        (if KNOCK_THRESHOLD_LEVEL \<le> analogOutput (max (adc1 c) (adc2 c)) then HIGH else LOW)"
      and ev: "added s s' = cycle_events_2ch c p1 p2 (logEnabled s)"
    by blast
  have aw: "analog_writes (added s s') = [analogOutput (max (adc1 c) (adc2 c))]"
    unfolding ev by (rule analog_writes_2ch)
  have l: "pins s' LED_LIMIT = HIGH
      \<longleftrightarrow> KNOCK_THRESHOLD_LEVEL \<le> analogOutput (max (adc1 c) (adc2 c))"
    unfolding led by (rule level_if_HIGH)
  from s' aw l analogOutput_max [OF assms] show ?thesis by blast
qed

theorem dual_combined_output_witness:
  "adc1 cycle_tie \<le> 1023 \<and> adc2 cycle_tie \<le> 1023
    \<and> (\<exists>s'. loop_cycle_2ch cycle_tie power_on_2ch = Some s'
          \<and> analog_writes (added power_on_2ch s') = [analogOutput 500])"
proof -
  have h: "adc1 cycle_tie \<le> 1023" "adc2 cycle_tie \<le> 1023"
    by (simp_all add: cycle_tie_def)
  from dual_combined_output [OF h, of power_on_2ch] h show ?thesis
    by (auto simp: cycle_tie_def)
qed

text \<open>
  C1. Every pass of the dual-channel loop performs the measurement steps in this order:
  channel-1 select byte over SPI, hold pin high, wait 3000 microseconds, hold pin low,
  ADC sample; then the same five steps with the channel-2 select byte. Channel 1 is
  finished before channel 2 starts.
\<close>

theorem dual_measurement_order:
  "\<exists>s'. loop_cycle_2ch c s = Some s'
    \<and> filter measurement_event (added s s') =
       [SpiTransfer SPU_SET_CHANNEL_1 (spu_rx c SPU_SET_CHANNEL_1),
        DigitalWrite SPU_HOLD_PIN HIGH, DelayMicroseconds 3000, DigitalWrite SPU_HOLD_PIN LOW,
        AnalogRead ANALOG_INPUT_PIN (adc1 c),
        SpiTransfer SPU_SET_CHANNEL_2 (spu_rx c SPU_SET_CHANNEL_2),
        DigitalWrite SPU_HOLD_PIN HIGH, DelayMicroseconds 3000, DigitalWrite SPU_HOLD_PIN LOW,
        AnalogRead ANALOG_INPUT_PIN (adc2 c)]"
proof -
  from loop_cycle_2ch_pass [of c s] obtain s' p1 p2
    where s': "loop_cycle_2ch c s = Some s'"
      and ev: "added s s' = cycle_events_2ch c p1 p2 (logEnabled s)"
    by blast
  have "filter measurement_event (cycle_events_2ch c p1 p2 (logEnabled s)) =
       [SpiTransfer SPU_SET_CHANNEL_1 (spu_rx c SPU_SET_CHANNEL_1),
        DigitalWrite SPU_HOLD_PIN HIGH, DelayMicroseconds 3000, DigitalWrite SPU_HOLD_PIN LOW,
        AnalogRead ANALOG_INPUT_PIN (adc1 c),
        SpiTransfer SPU_SET_CHANNEL_2 (spu_rx c SPU_SET_CHANNEL_2),
        DigitalWrite SPU_HOLD_PIN HIGH, DelayMicroseconds 3000, DigitalWrite SPU_HOLD_PIN LOW,
        AnalogRead ANALOG_INPUT_PIN (adc2 c)]"
    by (simp add: cycle_events_2ch_def log_events_def MEASUREMENT_WINDOW_TIME_def
        SPU_HOLD_PIN_def SPU_NSS_PIN_def LED_STATUS_def LED_LIMIT_def)
  with s' ev show ?thesis by simp
qed

theorem dual_measurement_order_witness:
  "\<exists>s'. loop_cycle_2ch cycle_tie power_on_2ch = Some s'
    \<and> filter measurement_event (added power_on_2ch s') =
       [SpiTransfer 0xE0 0, DigitalWrite 4 HIGH, DelayMicroseconds 3000, DigitalWrite 4 LOW,
        AnalogRead 0 500,
        SpiTransfer 0xE1 0, DigitalWrite 4 HIGH, DelayMicroseconds 3000, DigitalWrite 4 LOW,
        AnalogRead 0 500]"
  using dual_measurement_order [of cycle_tie power_on_2ch]
  by (simp add: cycle_tie_def spu_silent_def hw_defs)

lemma limit_after_1ch_eq:
  "limit_after_1ch adc s = Some (if 819 \<le> adc then HIGH else LOW)"
proof -
  from loop_cycle_1ch_pass [of adc s] obtain s' p
    where s': "loop_cycle_1ch adc s = Some s'" and p: "knock_percentage adc = Some p"
      and led: "pins s' LED_LIMIT = (if 80 \<le> p then HIGH else LOW)"
    by blast
  from knock_percentage_threshold [OF p] led s' show ?thesis
    by (simp add: limit_after_1ch_def)
qed

lemma analogOutput_818: "analogOutput 818 = 203"
  by (simp add: analogOutput_word)

lemma analogOutput_819: "analogOutput 819 = 204"
  by (simp add: analogOutput_word)

lemma analogOutput_onto: "\<exists>adc. adc \<le> 1023 \<and> analogOutput adc = out"
proof -
  define v where "v = uint out"
  define k where "k = (v * 1023 + 254) div 255"
  have v: "0 \<le> v" "v \<le> 255"
    using uint_bounded [of out] by (simp_all add: v_def)
  have "v * 1023 + 254 = 255 * k + (v * 1023 + 254) mod 255"
    unfolding k_def by simp
  moreover have "0 \<le> (v * 1023 + 254) mod 255" "(v * 1023 + 254) mod 255 < 255"
    by simp_all
  ultimately have k: "v * 1023 \<le> k * 255" "k * 255 \<le> v * 1023 + 254" by linarith+
  from k v have kr: "0 \<le> k" "k \<le> 1023" by linarith+
  define adc :: "16 word" where "adc = word_of_int k"
  have ua: "uint adc = k"
    using kr by (simp add: adc_def uint_word_of_int take_bit_eq_mod)
  have le: "adc \<le> 1023" using kr by (simp add: word_le_def ua)
  have "v \<le> k * 255 div 1023" using k(1) by (simp only: le_div_1023)
  moreover have "\<not> v + 1 \<le> k * 255 div 1023"
  proof -
    have "(v + 1) * 1023 = v * 1023 + 1023" by (simp add: algebra_simps)
    with k(2) have "\<not> (v + 1) * 1023 \<le> k * 255" by linarith
    then show ?thesis by (simp add: le_div_1023)
  qed
  ultimately have "k * 255 div 1023 = v" by linarith
  then have "uint (analogOutput adc) = uint out"
    by (simp only: uint_analogOutput_in_range [OF le] ua v_def)
  then have "analogOutput adc = out" by (rule word_uint_eqI)
  with le show ?thesis by blast
qed

text \<open>
  C3. The limit LED is asserted exactly when the analog output is at least 204. In the
  dual-channel loop this holds for every pass; in the single-channel loop, whose test
  is on the percentage, it holds for every raw ADC value in 0..1023. Every output value
  in 0..255 is reached by some raw value in 0..1023.
\<close>

theorem limit_indicator_threshold:
  "(\<forall>c s. \<exists>s'. loop_cycle_2ch c s = Some s'
       \<and> analog_writes (added s s') = [analogOutput (max (adc1 c) (adc2 c))]
       \<and> (pins s' LED_LIMIT = HIGH \<longleftrightarrow> 204 \<le> uint (analogOutput (max (adc1 c) (adc2 c))))
       \<and> (pins s' LED_LIMIT = LOW \<longleftrightarrow> uint (analogOutput (max (adc1 c) (adc2 c))) < 204))
   \<and> (\<forall>adc (s :: board). adc \<le> 1023 \<longrightarrow> (\<exists>s'. loop_cycle_1ch adc s = Some s'
       \<and> analog_writes (added s s') = [analogOutput adc]
       \<and> (pins s' LED_LIMIT = HIGH \<longleftrightarrow> 204 \<le> uint (analogOutput adc))
       \<and> (pins s' LED_LIMIT = LOW \<longleftrightarrow> uint (analogOutput adc) < 204)))
   \<and> (\<forall>out. \<exists>adc. adc \<le> 1023 \<and> analogOutput adc = out)"
proof (intro conjI allI impI)
  fix c :: cycle and s :: logger_board
  let ?out = "analogOutput (max (adc1 c) (adc2 c))"
  from loop_cycle_2ch_pass [of c s] obtain s' p1 p2
    where s': "loop_cycle_2ch c s = Some s'"
      and led: "pins s' LED_LIMIT = (if KNOCK_THRESHOLD_LEVEL \<le> ?out then HIGH else LOW)"
      and ev: "added s s' = cycle_events_2ch c p1 p2 (logEnabled s)"
    by blast
  have aw: "analog_writes (added s s') = [?out]"
    unfolding ev by (rule analog_writes_2ch)
  have t: "KNOCK_THRESHOLD_LEVEL \<le> ?out \<longleftrightarrow> 204 \<le> uint ?out"
    by (simp add: KNOCK_THRESHOLD_LEVEL_def word_le_def)
  from led t have "pins s' LED_LIMIT = HIGH \<longleftrightarrow> 204 \<le> uint ?out"
    "pins s' LED_LIMIT = LOW \<longleftrightarrow> uint ?out < 204"
    by (simp_all add: not_le)
  with s' aw show "\<exists>s'. loop_cycle_2ch c s = Some s' \<and> analog_writes (added s s') = [?out]
       \<and> (pins s' LED_LIMIT = HIGH \<longleftrightarrow> 204 \<le> uint ?out)
       \<and> (pins s' LED_LIMIT = LOW \<longleftrightarrow> uint ?out < 204)"
    by blast
next
  fix adc :: "16 word" and s :: board
  assume le: "adc \<le> 1023"
  from loop_cycle_1ch_pass [of adc s] obtain s' p
    where s': "loop_cycle_1ch adc s = Some s'" and p: "knock_percentage adc = Some p"
      and led: "pins s' LED_LIMIT = (if 80 \<le> p then HIGH else LOW)"
      and ev: "added s s' = cycle_events_1ch adc p"
    by blast
  have aw: "analog_writes (added s s') = [analogOutput adc]"
    unfolding ev by (rule analog_writes_1ch)
  have "80 \<le> p \<longleftrightarrow> KNOCK_THRESHOLD_LEVEL \<le> analogOutput adc"
    by (simp only: knock_percentage_threshold [OF p] analogOutput_threshold [OF le])
  also have "\<dots> \<longleftrightarrow> 204 \<le> uint (analogOutput adc)"
    by (simp add: KNOCK_THRESHOLD_LEVEL_def word_le_def)
  finally have t: "80 \<le> p \<longleftrightarrow> 204 \<le> uint (analogOutput adc)" .
  from led t have "pins s' LED_LIMIT = HIGH \<longleftrightarrow> 204 \<le> uint (analogOutput adc)"
    "pins s' LED_LIMIT = LOW \<longleftrightarrow> uint (analogOutput adc) < 204"
    by (simp_all add: not_le)
  with s' aw show "\<exists>s'. loop_cycle_1ch adc s = Some s'
       \<and> analog_writes (added s s') = [analogOutput adc]
       \<and> (pins s' LED_LIMIT = HIGH \<longleftrightarrow> 204 \<le> uint (analogOutput adc))
       \<and> (pins s' LED_LIMIT = LOW \<longleftrightarrow> uint (analogOutput adc) < 204)"
    by blast
next
  fix out :: byte
  show "\<exists>adc. adc \<le> 1023 \<and> analogOutput adc = out" by (rule analogOutput_onto)
qed

theorem limit_indicator_threshold_witness:
  "(818 :: 16 word) \<le> 1023 \<and> uint (analogOutput 818) = 203
    \<and> (\<exists>s'. loop_cycle_1ch 818 power_on_1ch = Some s' \<and> pins s' LED_LIMIT = LOW)
    \<and> (819 :: 16 word) \<le> 1023 \<and> uint (analogOutput 819) = 204
    \<and> (\<exists>s'. loop_cycle_1ch 819 power_on_1ch = Some s' \<and> pins s' LED_LIMIT = HIGH)"
proof -
  have h: "(818 :: 16 word) \<le> 1023" "(819 :: 16 word) \<le> 1023" by simp_all
  from limit_indicator_threshold have
    r: "\<And>adc (s :: board). adc \<le> 1023 \<Longrightarrow> \<exists>s'. loop_cycle_1ch adc s = Some s'
       \<and> analog_writes (added s s') = [analogOutput adc]
       \<and> (pins s' LED_LIMIT = HIGH \<longleftrightarrow> 204 \<le> uint (analogOutput adc))
       \<and> (pins s' LED_LIMIT = LOW \<longleftrightarrow> uint (analogOutput adc) < 204)"
    by blast
  from r [OF h(1), of power_on_1ch] r [OF h(2), of power_on_1ch] show ?thesis
    by (auto simp: analogOutput_818 analogOutput_819)
qed

text \<open>
  C6 (as amended). In the single-channel loop raw = 818 gives a percentage just below
  80 (about 79.96) and an analog output of 203, with the limit LED off; raw = 819 gives
  about 80.06 and 204, with the limit LED on. The limit LED is on exactly for raw values
  of 819 and above, so 819 is the smallest raw value at which the limit is asserted.
\<close>

theorem single_limit_boundary:
  "knock_percentage 818 = Some (10480635 / 131072) \<and> analogOutput 818 = 203
    \<and> knock_percentage 819 = Some (1311681 / 16384) \<and> analogOutput 819 = 204
    \<and> (10480635 / 131072 :: rat) < 80 \<and> (80 :: rat) \<le> 1311681 / 16384
    \<and> (\<forall>adc s. limit_after_1ch adc s = Some (if 819 \<le> adc then HIGH else LOW))"
  using knock_percentage_818 knock_percentage_819 analogOutput_818 analogOutput_819
    limit_after_1ch_eq by simp

theorem single_limit_boundary_witness:
  "limit_after_1ch 819 (setup_1ch spu_silent power_on_1ch) = Some HIGH
    \<and> limit_after_1ch 0 (setup_1ch spu_silent power_on_1ch) = Some LOW"
  using single_limit_boundary by simp

text \<open>
  C6 as stated fails: at raw = 818 the limit LED is off after the pass, so 818 is not a
  raw value at which the limit is asserted.
\<close>

theorem single_limit_at_818_counterexample:
  "limit_after_1ch 818 (setup_1ch spu_silent power_on_1ch) = Some LOW"
  by (simp add: limit_after_1ch_eq)

lemma COM_SPI_1ch_simps:
  "fst (COM_SPI_1ch tx rx s) = rx"
  "trace (snd (COM_SPI_1ch tx rx s)) = trace s @ spi_events_1ch tx rx"
  "pins (snd (COM_SPI_1ch tx rx s)) = (pins s)(SPU_NSS_PIN := HIGH)"
  by (simp_all add: COM_SPI_1ch_eq spi_events_1ch_def)

lemma COM_SPI_2ch_events:
  "trace (snd (COM_SPI_2ch tx rx s)) = trace s @ spi_events_2ch tx rx"
  by (simp add: COM_SPI_2ch_eq spi_events_2ch_def)

lemma setup_1ch_eq:
  "trace (setup_1ch spu s) = trace s @ setup_events_1ch spu"
  "pins (setup_1ch spu s) SPU_NSS_PIN = HIGH"
  unfolding setup_1ch_def setup_events_1ch_def
  by (simp_all add: Let_def emit_simps digitalWrite_simps COM_SPI_1ch_simps)

lemma setup_2ch_eq:
  "trace (setup_2ch card_ok spu s) = trace s @ setup_events_2ch card_ok spu"
  "pins (setup_2ch card_ok spu s) SPU_NSS_PIN = HIGH"
  "logEnabled (setup_2ch card_ok spu s) = (card_ok \<or> logEnabled s)"
  unfolding setup_2ch_def setup_events_2ch_def
  by (simp_all add: Let_def split_def emit_simps emit_logEnabled digitalWrite_simps
      digitalWrite_logEnabled COM_SPI_2ch_simps(1,3) COM_SPI_2ch_events COM_SPI_2ch_logEnabled)

lemma spi_bytes_1ch: "spi_bytes (spi_events_1ch tx rx) = [tx]"
  by (simp add: spi_events_1ch_def obs_simps)

lemma spi_bytes_2ch: "spi_bytes (spi_events_2ch tx rx) = [tx]"
  by (simp add: spi_events_2ch_def obs_simps)

lemma spi_bytes_setup_1ch:
  "spi_bytes (setup_events_1ch spu) =
     [SPU_SET_PRESCALAR_6MHz, SPU_SET_CHANNEL_1, SPU_SET_BAND_PASS_FREQUENCY,
      SPU_SET_PROGRAMMABLE_GAIN, SPU_SET_INTEGRATOR_TIME]"
  by (simp add: setup_events_1ch_def obs_simps spi_bytes_1ch)

lemma spi_bytes_setup_2ch:
  "spi_bytes (setup_events_2ch card_ok spu) =
     [SPU_SET_PRESCALAR_6MHz, SPU_SET_BAND_PASS_FREQUENCY,
      SPU_SET_PROGRAMMABLE_GAIN, SPU_SET_INTEGRATOR_TIME]"
  by (simp add: setup_events_2ch_def obs_simps spi_bytes_2ch)

text \<open>
  C7 (as amended). The dual-channel \<^verbatim>\<open>setup()\<close> sends exactly four bytes over SPI, in
  the order prescaler, band-pass frequency, gain, integrator time. The single-channel
  \<^verbatim>\<open>setup()\<close> sends exactly five: the same four in the same order, with the
  channel-1 select byte between the prescaler and the band-pass frequency.
\<close>

theorem setup_configuration_order:
  "spi_bytes (added s2 (setup_2ch card_ok spu s2)) =
     [SPU_SET_PRESCALAR_6MHz, SPU_SET_BAND_PASS_FREQUENCY,
      SPU_SET_PROGRAMMABLE_GAIN, SPU_SET_INTEGRATOR_TIME]
   \<and> spi_bytes (added s1 (setup_1ch spu s1)) =
     [SPU_SET_PRESCALAR_6MHz, SPU_SET_CHANNEL_1, SPU_SET_BAND_PASS_FREQUENCY,
      SPU_SET_PROGRAMMABLE_GAIN, SPU_SET_INTEGRATOR_TIME]"
  by (simp add: added_append [OF setup_2ch_eq(1)] added_append [OF setup_1ch_eq(1)]
      spi_bytes_setup_1ch spi_bytes_setup_2ch)

theorem setup_configuration_order_witness:
  "spi_bytes (trace (setup_2ch True spu_silent power_on_2ch)) = [0x44, 0x2A, 0xA2, 0xCA]
   \<and> spi_bytes (trace (setup_1ch spu_silent power_on_1ch)) = [0x44, 0xE0, 0x2A, 0xA2, 0xCA]"
  using setup_configuration_order [of power_on_2ch True spu_silent power_on_1ch]
  by (simp add: added_def power_on_1ch_def power_on_2ch_def hw_defs)

text \<open>
  C7 as stated fails for the single-channel sketch: the bytes it sends at start-up are
  not the four configuration bytes alone.
\<close>

theorem setup_1ch_bytes_counterexample:
  "spi_bytes (trace (setup_1ch spu_silent power_on_1ch)) \<noteq>
     [SPU_SET_PRESCALAR_6MHz, SPU_SET_BAND_PASS_FREQUENCY,
      SPU_SET_PROGRAMMABLE_GAIN, SPU_SET_INTEGRATOR_TIME]"
  by (simp add: setup_1ch_eq(1) power_on_1ch_def spi_bytes_setup_1ch)

lemma cs_check_append:
  "cs_check lv (xs @ ys) = Option.bind (cs_check lv xs) (\<lambda>l. cs_check l ys)"
  by (induction lv xs rule: cs_check.induct) simp_all

lemma cs_check_spi_1ch: "cs_check HIGH (spi_events_1ch tx rx) = Some HIGH"
  by (simp add: spi_events_1ch_def)

lemma cs_check_spi_2ch: "cs_check HIGH (spi_events_2ch tx rx) = Some HIGH"
  by (simp add: spi_events_2ch_def)

lemma cs_check_cycle_1ch: "cs_check HIGH (cycle_events_1ch adc p) = Some HIGH"
  by (simp add: cycle_events_1ch_def hw_defs)

lemma cs_check_log: "cs_check HIGH (log_events t ok) = Some HIGH"
  by (simp add: log_events_def)

lemma cs_check_cycle_2ch: "cs_check HIGH (cycle_events_2ch c p1 p2 en) = Some HIGH"
  by (simp add: cycle_events_2ch_def cs_check_append cs_check_log hw_defs)

lemma since_select_raised_setup_1ch:
  "cs_check LOW (since_select_raised (setup_events_1ch spu @ evs)) = cs_check HIGH evs"
  by (simp add: since_select_raised_def setup_events_1ch_def cs_check_append
      cs_check_spi_1ch hw_defs)

lemma since_select_raised_setup_2ch:
  "cs_check LOW (since_select_raised (setup_events_2ch card_ok spu @ evs)) = cs_check HIGH evs"
  by (simp add: since_select_raised_def setup_events_2ch_def cs_check_append
      cs_check_spi_2ch hw_defs)

lemma loop_1ch_run:
  "\<exists>s' evs. loop_1ch adcs s = Some s' \<and> trace s' = trace s @ evs \<and>
     pins s' SPU_NSS_PIN = pins s SPU_NSS_PIN \<and> cs_check HIGH evs = Some HIGH \<and>
     passes evs = length adcs"
proof (induction adcs arbitrary: s)
  case Nil
  show ?case by (simp add: obs_simps)
next
  case (Cons adc adcs)
  from loop_cycle_1ch_pass [of adc s] obtain s1 p
    where s1: "loop_cycle_1ch adc s = Some s1"
      and nss: "pins s1 SPU_NSS_PIN = pins s SPU_NSS_PIN"
      and tr1: "trace s1 = trace s @ cycle_events_1ch adc p"
    by blast
  from Cons.IH [of s1] obtain s' evs
    where s': "loop_1ch adcs s1 = Some s'" and tr: "trace s' = trace s1 @ evs"
      and nss': "pins s' SPU_NSS_PIN = pins s1 SPU_NSS_PIN"
      and cs: "cs_check HIGH evs = Some HIGH" and n: "passes evs = length adcs"
    by blast
  have "loop_1ch (adc # adcs) s = Some s'" using s1 s' by simp
  moreover have "trace s' = trace s @ (cycle_events_1ch adc p @ evs)"
    using tr tr1 by simp
  moreover have "cs_check HIGH (cycle_events_1ch adc p @ evs) = Some HIGH"
    by (simp add: cs_check_append cs_check_cycle_1ch cs)
  moreover have "passes (cycle_events_1ch adc p @ evs) = length (adc # adcs)"
    by (simp add: obs_simps n cycle_events_1ch_def)
  ultimately show ?case using nss nss' by (metis (lifting))
qed

lemma probes_cycle_2ch:
  "storage_probes (cycle_events_2ch c p1 p2 en) = (if en then [sd_ok c] else [])"
  by (simp add: cycle_events_2ch_def log_events_def obs_simps)

lemma file_lines_cycle_2ch:
  "file_lines (cycle_events_2ch c p1 p2 en) =
     (if en \<and> sd_ok c then [txString_2ch p1 p2] else [])"
  by (simp add: cycle_events_2ch_def log_events_def obs_simps)

lemma serial_lines_cycle_2ch:
  "serial_lines (cycle_events_2ch c p1 p2 en) =
     txString_2ch p1 p2 # (if en \<and> \<not> sd_ok c then [[Str ''Error accessing SD-card.'']] else [])"
  by (simp add: cycle_events_2ch_def log_events_def obs_simps)

lemma passes_cycle_2ch: "passes (cycle_events_2ch c p1 p2 en) = 1"
  by (simp add: cycle_events_2ch_def log_events_def obs_simps)

lemma probes_setup_2ch: "storage_probes (setup_events_2ch card_ok spu) = [card_ok]"
  by (simp add: setup_events_2ch_def spi_events_2ch_def obs_simps)

lemma loop_2ch_run:
  "\<exists>s' evs. loop_2ch cs s = Some s' \<and> trace s' = trace s @ evs \<and>
     logEnabled s' = logEnabled s \<and>
     (pins s SPU_NSS_PIN = HIGH \<longrightarrow> pins s' SPU_NSS_PIN = HIGH) \<and>
     cs_check HIGH evs = Some HIGH \<and> passes evs = length cs \<and>
     storage_probes evs = (if logEnabled s then map sd_ok cs else []) \<and>
     length (file_lines evs) = (if logEnabled s then length (filter sd_ok cs) else 0)"
proof (induction cs arbitrary: s)
  case Nil
  show ?case by (simp add: obs_simps)
next
  case (Cons c cs)
  from loop_cycle_2ch_pass [of c s] obtain s1 p1 p2
    where s1: "loop_cycle_2ch c s = Some s1" and en1: "logEnabled s1 = logEnabled s"
      and nss: "pins s1 SPU_NSS_PIN = HIGH"
      and tr1: "trace s1 = trace s @ cycle_events_2ch c p1 p2 (logEnabled s)"
    by blast
  from Cons.IH [of s1] obtain s' evs
    where s': "loop_2ch cs s1 = Some s'" and tr: "trace s' = trace s1 @ evs"
      and en: "logEnabled s' = logEnabled s1"
      and nss': "pins s1 SPU_NSS_PIN = HIGH \<longrightarrow> pins s' SPU_NSS_PIN = HIGH"
      and cs: "cs_check HIGH evs = Some HIGH" and n: "passes evs = length cs"
      and pr: "storage_probes evs = (if logEnabled s1 then map sd_ok cs else [])"
      and fl: "length (file_lines evs) = (if logEnabled s1 then length (filter sd_ok cs) else 0)"
    by blast
  let ?evs = "cycle_events_2ch c p1 p2 (logEnabled s) @ evs"
  have "loop_2ch (c # cs) s = Some s'" using s1 s' by simp
  moreover have "trace s' = trace s @ ?evs" using tr tr1 by simp
  moreover have "logEnabled s' = logEnabled s" using en en1 by simp
  moreover have "pins s' SPU_NSS_PIN = HIGH" using nss nss' by simp
  moreover have "cs_check HIGH ?evs = Some HIGH"
    by (simp add: cs_check_append cs_check_cycle_2ch cs)
  moreover have "passes ?evs = length (c # cs)"
    by (simp add: obs_simps(21) passes_cycle_2ch n)
  moreover have "storage_probes ?evs = (if logEnabled s then map sd_ok (c # cs) else [])"
    by (simp add: obs_simps(9) probes_cycle_2ch pr en1)
  moreover have "length (file_lines ?evs) =
      (if logEnabled s then length (filter sd_ok (c # cs)) else 0)"
    by (simp add: obs_simps(12) file_lines_cycle_2ch fl en1)
  ultimately show ?case by blast
qed

text \<open>
  C8. The logging flag is set at start-up to the result of the single storage probe
  made there, and no pass of the loop changes it. A pass calls the logger (one probe of
  the storage) exactly once when the flag is set and never when it is clear. When the
  storage fails during a log attempt the pass only prints the error line: nothing is
  written, the probe is not repeated, the flag stays set, and the loop goes on to the
  following passes, each attempting to log again.
\<close>

theorem logging_flag_discipline:
  "logEnabled (setup_2ch card_ok spu power_on_2ch) = card_ok
   \<and> storage_probes (added power_on_2ch (setup_2ch card_ok spu power_on_2ch)) = [card_ok]
   \<and> (\<forall>c s. \<exists>s' p1 p2. loop_cycle_2ch c s = Some s' \<and> logEnabled s' = logEnabled s
        \<and> storage_probes (added s s') = (if logEnabled s then [sd_ok c] else [])
        \<and> file_lines (added s s') = (if logEnabled s \<and> sd_ok c then [txString_2ch p1 p2] else [])
        \<and> serial_lines (added s s') = txString_2ch p1 p2 #
             (if logEnabled s \<and> \<not> sd_ok c then [[Str ''Error accessing SD-card.'']] else []))
   \<and> (\<forall>cs s. \<exists>s'. loop_2ch cs s = Some s' \<and> logEnabled s' = logEnabled s
        \<and> passes (added s s') = length cs
        \<and> storage_probes (added s s') = (if logEnabled s then map sd_ok cs else [])
        \<and> length (file_lines (added s s')) =
             (if logEnabled s then length (filter sd_ok cs) else 0))"
proof (intro conjI allI)
  show "logEnabled (setup_2ch card_ok spu power_on_2ch) = card_ok"
    by (simp add: setup_2ch_eq(3) power_on_2ch_def)
  show "storage_probes (added power_on_2ch (setup_2ch card_ok spu power_on_2ch)) = [card_ok]"
    by (simp add: added_append [OF setup_2ch_eq(1)] probes_setup_2ch)
next
  fix c :: cycle and s :: logger_board
  from loop_cycle_2ch_pass [of c s] obtain s' p1 p2
    where s': "loop_cycle_2ch c s = Some s'" and en: "logEnabled s' = logEnabled s"
      and ev: "added s s' = cycle_events_2ch c p1 p2 (logEnabled s)"
    by blast
  have "storage_probes (added s s') = (if logEnabled s then [sd_ok c] else [])"
    "file_lines (added s s') = (if logEnabled s \<and> sd_ok c then [txString_2ch p1 p2] else [])"
    "serial_lines (added s s') = txString_2ch p1 p2 #
       (if logEnabled s \<and> \<not> sd_ok c then [[Str ''Error accessing SD-card.'']] else [])"
    unfolding ev by (rule probes_cycle_2ch file_lines_cycle_2ch serial_lines_cycle_2ch)+
  with s' en show "\<exists>s' p1 p2. loop_cycle_2ch c s = Some s' \<and> logEnabled s' = logEnabled s
        \<and> storage_probes (added s s') = (if logEnabled s then [sd_ok c] else [])
        \<and> file_lines (added s s') = (if logEnabled s \<and> sd_ok c then [txString_2ch p1 p2] else [])
        \<and> serial_lines (added s s') = txString_2ch p1 p2 #
             (if logEnabled s \<and> \<not> sd_ok c then [[Str ''Error accessing SD-card.'']] else [])"
    by blast
next
  fix cs :: "cycle list" and s :: logger_board
  from loop_2ch_run [of cs s] obtain s' evs
    where s': "loop_2ch cs s = Some s'" and tr: "trace s' = trace s @ evs"
      and en: "logEnabled s' = logEnabled s" and n: "passes evs = length cs"
      and pr: "storage_probes evs = (if logEnabled s then map sd_ok cs else [])"
      and fl: "length (file_lines evs) = (if logEnabled s then length (filter sd_ok cs) else 0)"
    by blast
  note ad = added_append [OF tr]
  from s' en n pr fl show "\<exists>s'. loop_2ch cs s = Some s' \<and> logEnabled s' = logEnabled s
        \<and> passes (added s s') = length cs
        \<and> storage_probes (added s s') = (if logEnabled s then map sd_ok cs else [])
        \<and> length (file_lines (added s s')) =
             (if logEnabled s then length (filter sd_ok cs) else 0)"
    using ad by auto
qed

theorem logging_flag_discipline_witness:
  "logEnabled (setup_2ch True spu_silent power_on_2ch)
   \<and> (\<exists>s'. loop_2ch [cycle_tie, cycle_tie] (setup_2ch True spu_silent power_on_2ch) = Some s'
        \<and> logEnabled s'
        \<and> passes (added (setup_2ch True spu_silent power_on_2ch) s') = 2
        \<and> storage_probes (added (setup_2ch True spu_silent power_on_2ch) s') = [False, False]
        \<and> length (file_lines (added (setup_2ch True spu_silent power_on_2ch) s')) = 0)"
proof -
  note t = logging_flag_discipline [of True spu_silent]
  from t have en: "logEnabled (setup_2ch True spu_silent power_on_2ch)" by simp
  from t have "\<exists>s'. loop_2ch [cycle_tie, cycle_tie] (setup_2ch True spu_silent power_on_2ch) = Some s'
      \<and> logEnabled s' = logEnabled (setup_2ch True spu_silent power_on_2ch)
      \<and> passes (added (setup_2ch True spu_silent power_on_2ch) s') = length [cycle_tie, cycle_tie]
      \<and> storage_probes (added (setup_2ch True spu_silent power_on_2ch) s') =
          (if logEnabled (setup_2ch True spu_silent power_on_2ch)
           then map sd_ok [cycle_tie, cycle_tie] else [])
      \<and> length (file_lines (added (setup_2ch True spu_silent power_on_2ch) s')) =
          (if logEnabled (setup_2ch True spu_silent power_on_2ch)
           then length (filter sd_ok [cycle_tie, cycle_tie]) else 0)"
    by blast
  with en show ?thesis by (auto simp: cycle_tie_def)
qed

lemma run_1ch_framed:
  "\<exists>s'. run_1ch spu adcs = Some s' \<and> pins s' SPU_NSS_PIN = HIGH
     \<and> cs_check LOW (since_select_raised (trace s')) = Some HIGH"
proof -
  let ?s0 = "setup_1ch spu power_on_1ch"
  have tr0: "trace ?s0 = setup_events_1ch spu"
    by (simp add: setup_1ch_eq(1) power_on_1ch_def)
  from loop_1ch_run [of adcs ?s0] obtain s' evs
    where s': "loop_1ch adcs ?s0 = Some s'" and tr: "trace s' = trace ?s0 @ evs"
      and nss: "pins s' SPU_NSS_PIN = pins ?s0 SPU_NSS_PIN"
      and cs: "cs_check HIGH evs = Some HIGH"
    by blast
  have "cs_check LOW (since_select_raised (trace s')) = Some HIGH"
    unfolding tr tr0 since_select_raised_setup_1ch by (rule cs)
  with s' nss show ?thesis by (simp add: run_1ch_def setup_1ch_eq(2))
qed

lemma run_2ch_framed:
  "\<exists>s'. run_2ch card_ok spu cs = Some s' \<and> pins s' SPU_NSS_PIN = HIGH
     \<and> cs_check LOW (since_select_raised (trace s')) = Some HIGH"
proof -
  let ?s0 = "setup_2ch card_ok spu power_on_2ch"
  have tr0: "trace ?s0 = setup_events_2ch card_ok spu"
    by (simp add: setup_2ch_eq(1) power_on_2ch_def)
  from loop_2ch_run [of cs ?s0] obtain s' evs
    where s': "loop_2ch cs ?s0 = Some s'" and tr: "trace s' = trace ?s0 @ evs"
      and nss: "pins ?s0 SPU_NSS_PIN = HIGH \<longrightarrow> pins s' SPU_NSS_PIN = HIGH"
      and cs: "cs_check HIGH evs = Some HIGH"
    by blast
  have "cs_check LOW (since_select_raised (trace s')) = Some HIGH"
    unfolding tr tr0 since_select_raised_setup_2ch by (rule cs)
  with s' nss show ?thesis by (simp add: run_2ch_def setup_2ch_eq(2))
qed

text \<open>
  C9. In both sketches a call of \<^verbatim>\<open>COM_SPI\<close> returns the byte received, writes the
  select pin low before the transfer and high after it, and leaves the select pin high
  whatever its level was before. Along every run, from the moment \<^verbatim>\<open>setup()\<close> first
  raises the select line, transfers happen only while the line is low and everything
  else happens while it is high; the line is high at the end of every pass.
\<close>

theorem chip_select_framing:
  "(\<forall>tx rx (s :: board).
       fst (COM_SPI_1ch tx rx s) = rx
     \<and> pins (snd (COM_SPI_1ch tx rx s)) SPU_NSS_PIN = HIGH
     \<and> added s (snd (COM_SPI_1ch tx rx s)) =
         [DigitalWrite SPU_NSS_PIN LOW, SpiTransfer tx rx, DigitalWrite SPU_NSS_PIN HIGH,
          SerialPrint [Str ''SPU_SPI: 0x''], SerialPrint [Hex rx], SerialPrint [Str nl_cr]]
     \<and> cs_check HIGH (added s (snd (COM_SPI_1ch tx rx s))) = Some HIGH)
   \<and> (\<forall>tx rx (s :: logger_board).
       fst (COM_SPI_2ch tx rx s) = rx
     \<and> pins (snd (COM_SPI_2ch tx rx s)) SPU_NSS_PIN = HIGH
     \<and> added s (snd (COM_SPI_2ch tx rx s)) =
         [SpiSetDataMode SPI_MODE1, SpiSetClockDivider SPI_CLOCK_DIV16,
          DigitalWrite SPU_NSS_PIN LOW, SpiTransfer tx rx, DigitalWrite SPU_NSS_PIN HIGH]
     \<and> cs_check HIGH (added s (snd (COM_SPI_2ch tx rx s))) = Some HIGH)
   \<and> (\<forall>spu adcs. \<exists>s'. run_1ch spu adcs = Some s' \<and> pins s' SPU_NSS_PIN = HIGH
         \<and> cs_check LOW (since_select_raised (trace s')) = Some HIGH)
   \<and> (\<forall>card_ok spu cs. \<exists>s'. run_2ch card_ok spu cs = Some s' \<and> pins s' SPU_NSS_PIN = HIGH
         \<and> cs_check LOW (since_select_raised (trace s')) = Some HIGH)"
proof (intro conjI allI)
  fix tx rx :: byte and s :: board
  have ad: "added s (snd (COM_SPI_1ch tx rx s)) = spi_events_1ch tx rx"
    by (rule added_append) (rule COM_SPI_1ch_simps(2))
  show "fst (COM_SPI_1ch tx rx s) = rx" by (rule COM_SPI_1ch_simps(1))
  show "pins (snd (COM_SPI_1ch tx rx s)) SPU_NSS_PIN = HIGH"
    by (simp add: COM_SPI_1ch_simps(3))
  show "added s (snd (COM_SPI_1ch tx rx s)) =
         [DigitalWrite SPU_NSS_PIN LOW, SpiTransfer tx rx, DigitalWrite SPU_NSS_PIN HIGH,
          SerialPrint [Str ''SPU_SPI: 0x''], SerialPrint [Hex rx], SerialPrint [Str nl_cr]]"
    unfolding ad by (simp add: spi_events_1ch_def)
  show "cs_check HIGH (added s (snd (COM_SPI_1ch tx rx s))) = Some HIGH"
    unfolding ad by (rule cs_check_spi_1ch)
next
  fix tx rx :: byte and s :: logger_board
  have ad: "added s (snd (COM_SPI_2ch tx rx s)) = spi_events_2ch tx rx"
    by (rule added_append) (rule COM_SPI_2ch_events)
  show "fst (COM_SPI_2ch tx rx s) = rx" by (rule COM_SPI_2ch_simps(1))
  show "pins (snd (COM_SPI_2ch tx rx s)) SPU_NSS_PIN = HIGH"
    by (simp add: COM_SPI_2ch_simps(3))
  show "added s (snd (COM_SPI_2ch tx rx s)) =
         [SpiSetDataMode SPI_MODE1, SpiSetClockDivider SPI_CLOCK_DIV16,
          DigitalWrite SPU_NSS_PIN LOW, SpiTransfer tx rx, DigitalWrite SPU_NSS_PIN HIGH]"
    unfolding ad by (simp add: spi_events_2ch_def)
  show "cs_check HIGH (added s (snd (COM_SPI_2ch tx rx s))) = Some HIGH"
    unfolding ad by (rule cs_check_spi_2ch)
next
  fix spu :: "byte \<Rightarrow> byte" and adcs :: "16 word list"
  show "\<exists>s'. run_1ch spu adcs = Some s' \<and> pins s' SPU_NSS_PIN = HIGH
         \<and> cs_check LOW (since_select_raised (trace s')) = Some HIGH"
    by (rule run_1ch_framed)
next
  fix card_ok :: bool and spu :: "byte \<Rightarrow> byte" and cs :: "cycle list"
  show "\<exists>s'. run_2ch card_ok spu cs = Some s' \<and> pins s' SPU_NSS_PIN = HIGH
         \<and> cs_check LOW (since_select_raised (trace s')) = Some HIGH"
    by (rule run_2ch_framed)
qed

theorem chip_select_framing_witness:
  "fst (COM_SPI_2ch SPU_SET_CHANNEL_1 0 power_on_2ch) = 0
   \<and> pins (snd (COM_SPI_2ch SPU_SET_CHANNEL_1 0 power_on_2ch)) SPU_NSS_PIN = HIGH
   \<and> (\<exists>s'. run_2ch False spu_silent [cycle_tie] = Some s' \<and> pins s' SPU_NSS_PIN = HIGH
         \<and> cs_check LOW (since_select_raised (trace s')) = Some HIGH)"
  using chip_select_framing by blast

end
